theory Spec2Isabelle
  imports Main "HOL-Library.Sublist"
begin

section \<open>The greenlet pool of \<open>pulsar/apps/greenio/__init__.py\<close>\<close>

subsection \<open>Constants and construction\<close>

definition DEFAULT_WORKERS :: int where
  "DEFAULT_WORKERS = 100"

definition MAX_WORKERS :: int where
  "MAX_WORKERS = 1000"

text \<open>
  \<^verbatim>\<open>self._max_workers = min(max_workers or _DEFAULT_WORKERS, _MAX_WORKERS)\<close>.
  The argument is \<^verbatim>\<open>None\<close> or a Python integer; \<^verbatim>\<open>x or d\<close> is \<open>d\<close> when \<open>x\<close>
  is falsy, that is \<^verbatim>\<open>None\<close> or \<open>0\<close>.
\<close>

definition py_or :: "int option \<Rightarrow> int \<Rightarrow> int" where
  "py_or x d = (case x of None \<Rightarrow> d | Some m \<Rightarrow> if m = 0 then d else m)"

definition init_max_workers :: "int option \<Rightarrow> int" where
  "init_max_workers max_workers = min (py_or max_workers DEFAULT_WORKERS) MAX_WORKERS"

subsection \<open>Exceptions, values and callables\<close>

text \<open>
  Raised objects, by the classes the source and the future tell apart:
  \<^verbatim>\<open>except StopIteration\<close>, \<^verbatim>\<open>except Exception\<close> and the bare \<^verbatim>\<open>except:\<close>. \<open>StopIteration\<close>
  is an object whose type is exactly that class. \<open>BaseOnly\<close> stands for an instance of
  \<^verbatim>\<open>BaseException\<close> that is not an \<^verbatim>\<open>Exception\<close>: \<^verbatim>\<open>SystemExit\<close>, \<^verbatim>\<open>KeyboardInterrupt\<close>
  or \<^verbatim>\<open>GeneratorExit\<close>, and not \<^verbatim>\<open>GreenletExit\<close>, which the greenlet library treats as
  the return of a greenlet.
\<close>

datatype exn =
    StopIteration
  | RuntimeError string
  | InvalidStateError
  | TypeError string
  | OtherException string
  | BaseOnly string

fun is_Exception :: "exn \<Rightarrow> bool" where
  "is_Exception (BaseOnly _) = False"
| "is_Exception _ = True"

text \<open>
  Futures are named by identity. \<open>PoolFut n\<close> is the \<open>n\<close>-th future created by the pool
  (\<^verbatim>\<open>Future(loop=self._loop)\<close> in \<^verbatim>\<open>submit\<close> and \<^verbatim>\<open>shutdown\<close>); \<open>UserFut n\<close> is a future
  made by user code, such as the one a sleep returns.
\<close>

datatype fut = PoolFut nat | UserFut nat

datatype val = VNone | VUnit | VInt int | VFuture fut

text \<open>\<^verbatim>\<open>is_async(result)\<close>: the value is a future (the awaitables of this model).\<close>

fun is_async :: "val \<Rightarrow> bool" where
  "is_async (VFuture _) = True"
| "is_async _ = False"

text \<open>
  What a callable \<^verbatim>\<open>func(*args, **kwargs)\<close> does, as far as the pool can see: it returns
  a value, raises, or calls \<^verbatim>\<open>wait(v)\<close> and goes on with the value that call returns.
  The code between two calls of \<^verbatim>\<open>wait\<close> is pure from the pool's side and is folded
  into the continuation.
\<close>

datatype prog = Return val | Raise exn | Wait val "val \<Rightarrow> prog"

subsection \<open>Greenlets and \<^verbatim>\<open>wait\<close>\<close>

text \<open>
  The pool creates its workers from the main greenlet of the event-loop thread, so the
  parent of a worker is the main greenlet, and the main greenlet has no parent.
\<close>

datatype greenlet = MainGreenlet | GreenletWorker nat

fun parent :: "greenlet \<Rightarrow> greenlet option" where
  "parent MainGreenlet = None"
| "parent (GreenletWorker _) = Some MainGreenlet"

text \<open>
  \<^verbatim>\<open>return parent.switch(value) if parent else value\<close>. The call either returns at once
  (\<open>Returned\<close>) or switches to the parent, handing it the value (\<open>SwitchedTo\<close>); in the
  second case the call returns what the next switch into this greenlet passes.
\<close>

datatype switched = Returned val | SwitchedTo greenlet val

definition wait :: "greenlet \<Rightarrow> val \<Rightarrow> switched" where
  "wait current v = (case parent current of Some p \<Rightarrow> SwitchedTo p v | None \<Rightarrow> Returned v)"

text \<open>
  A callable run on the main line, outside every worker: each \<^verbatim>\<open>wait\<close> is evaluated in
  the main greenlet.
\<close>

primrec run_main :: "prog \<Rightarrow> exn + val" where
  "run_main (Return v) = Inr v"
| "run_main (Raise e) = Inl e"
| "run_main (Wait v k) =
     (case wait MainGreenlet v of
        Returned x \<Rightarrow> run_main (k x)
      | SwitchedTo p x \<Rightarrow> run_main (k x))"

subsection \<open>State of the pool, of its greenlets and of the event loop\<close>

text \<open>A task is the tuple \<^verbatim>\<open>(future, func, args, kwargs)\<close>, the arguments bound to the callable.\<close>

type_synonym task = "fut \<times> prog"

text \<open>
  Where a worker greenlet stands: \<open>Idle\<close> at \<^verbatim>\<open>task = parent.switch()\<close> of \<^verbatim>\<open>_green_run\<close>,
  \<open>InTask future k\<close> inside the callable of the task with that future, suspended in
  \<^verbatim>\<open>wait\<close> with \<open>k\<close> left to run, or \<open>Dead\<close> (not started, or finished).
\<close>

datatype gstate = Idle | InTask fut "val \<Rightarrow> prog" | Dead

text \<open>
  A future is pending, with the coroutines \<^verbatim>\<open>_green_task\<close> that wait for it (each named by
  its greenlet), or done with an exception (\<open>Inl\<close>) or a result (\<open>Inr\<close>).
\<close>

datatype fstate = Pending "nat list" | Done "exn + val"

text \<open>
  The callbacks the loop holds: \<^verbatim>\<open>_check_queue\<close>, the first step of the coroutine
  \<^verbatim>\<open>_green_task(greenlet, task)\<close>, and the resumption of such a coroutine once the future
  it waits for is done.
\<close>

datatype callback = CheckQueue | GreenTask nat "task option" | Wakeup nat fut

text \<open>
  The pool's fields (\<^verbatim>\<open>_max_workers\<close>, \<^verbatim>\<open>_greenlets\<close>, \<^verbatim>\<open>_available\<close>, \<^verbatim>\<open>_queue\<close>,
  \<^verbatim>\<open>_shutdown\<close>, \<^verbatim>\<open>_waiter\<close>), then the state of the libraries it drives: the greenlets,
  the futures and the loop's queue of ready callbacks. \<open>dispatched\<close> is a trace, not read
  by any operation: one entry per call of \<^verbatim>\<open>async(self._green_task(greenlet, task))\<close>.
  The two Python sets are lists without duplicates; the deque has its left end at the head.
  \<^verbatim>\<open>_maxtasks\<close> is stored by the constructor and never read, and \<^verbatim>\<open>_shutdown_lock\<close> guards
  code that runs on one thread here; neither is a field.
\<close>

record pool =
  max_workers :: int
  greenlets :: "nat list"
  available :: "nat list"
  queue :: "task option list"
  shutdown_flag :: bool
  waiter :: "fut option"
  contexts :: "nat \<Rightarrow> gstate"
  next_gid :: nat
  futures :: "fut \<Rightarrow> fstate"
  next_fid :: nat
  ready :: "callback list"
  dispatched :: "(nat \<times> task option) list"

definition GreenPool_init :: "int option \<Rightarrow> pool" where
  "GreenPool_init mw =
     \<lparr>max_workers = init_max_workers mw, greenlets = [], available = [], queue = [],
      shutdown_flag = False, waiter = None, contexts = (\<lambda>_. Dead), next_gid = 0,
      futures = (\<lambda>_. Pending []), next_fid = 0, ready = [], dispatched = []\<rparr>"

subsection \<open>Sets, the deque, the loop and futures\<close>

definition set_add :: "'a \<Rightarrow> 'a list \<Rightarrow> 'a list" where
  "set_add x xs = (if x \<in> set xs then xs else xs @ [x])"

definition set_remove :: "'a \<Rightarrow> 'a list \<Rightarrow> 'a list" where
  "set_remove x xs = removeAll x xs"

text \<open>
  \<^verbatim>\<open>set.pop()\<close> removes an arbitrary element. Which one is the argument \<open>c\<close>, which every
  operation that may pop takes from its caller, so that a statement for all \<open>c\<close> covers
  every choice.
\<close>

definition set_pop :: "nat \<Rightarrow> 'a list \<Rightarrow> 'a \<times> 'a list" where
  "set_pop c xs = (let i = c mod length xs in (xs ! i, take i xs @ drop (Suc i) xs))"

definition deque_appendleft :: "'a \<Rightarrow> 'a list \<Rightarrow> 'a list" where
  "deque_appendleft x q = x # q"

text \<open>\<^verbatim>\<open>deque.pop()\<close> takes from the right end; \<open>None\<close> is the \<^verbatim>\<open>IndexError\<close> of an empty deque.\<close>

definition deque_pop :: "'a list \<Rightarrow> ('a \<times> 'a list) option" where
  "deque_pop q = (if q = [] then None else Some (last q, butlast q))"

definition call_soon :: "callback \<Rightarrow> pool \<Rightarrow> pool" where
  "call_soon cb s = s\<lparr>ready := ready s @ [cb]\<rparr>"

text \<open>
  What \<^verbatim>\<open>future.set_result\<close> and \<^verbatim>\<open>future.set_exception\<close> share: a pending future becomes
  done and the coroutines waiting for it are scheduled; a done future raises
  \<^verbatim>\<open>InvalidStateError\<close>.
\<close>

definition set_outcome :: "fut \<Rightarrow> exn + val \<Rightarrow> pool \<Rightarrow> exn option \<times> pool" where
  "set_outcome f out s =
     (case futures s f of
        Pending ws \<Rightarrow>
          (None, s\<lparr>futures := (futures s)(f := Done out),
                   ready := ready s @ map (\<lambda>g. Wakeup g f) ws\<rparr>)
      | Done _ \<Rightarrow> (Some InvalidStateError, s))"

definition set_result :: "fut \<Rightarrow> val \<Rightarrow> pool \<Rightarrow> exn option \<times> pool" where
  "set_result f v s = set_outcome f (Inr v) s"

text \<open>
  \<^verbatim>\<open>future.set_exception(exc)\<close> checks the state of the future first and then refuses an
  object of type \<^verbatim>\<open>StopIteration\<close> with a \<^verbatim>\<open>TypeError\<close>, leaving the future pending.
\<close>

definition set_exception :: "fut \<Rightarrow> exn \<Rightarrow> pool \<Rightarrow> exn option \<times> pool" where
  "set_exception f e s =
     (case futures s f of
        Done _ \<Rightarrow> (Some InvalidStateError, s)
      | Pending ws \<Rightarrow>
          if e = StopIteration then
            (Some (TypeError ''StopIteration interacts badly with generators and cannot be raised into a Future''), s)
          else set_outcome f (Inl e) s)"

text \<open>A future resolved with an outcome: an exception or a result.\<close>

definition resolve :: "fut \<Rightarrow> exn + val \<Rightarrow> pool \<Rightarrow> exn option \<times> pool" where
  "resolve f out s = (case out of Inl e \<Rightarrow> set_exception f e s | Inr v \<Rightarrow> set_result f v s)"

subsection \<open>The pool's operations\<close>

text \<open>
  The head of the loop of \<^verbatim>\<open>_green_run\<close>, up to \<^verbatim>\<open>task = parent.switch()\<close>: the greenlet
  adds itself to \<^verbatim>\<open>_available\<close>, schedules \<^verbatim>\<open>_check_queue\<close> and switches to its parent.
\<close>

definition green_idle :: "nat \<Rightarrow> pool \<Rightarrow> pool" where
  "green_idle g s =
     (call_soon CheckQueue (s\<lparr>available := set_add g (available s)\<rparr>))
       \<lparr>contexts := (contexts s)(g := Idle)\<rparr>"

definition adjust_greenlet_count :: "pool \<Rightarrow> pool" where
  "adjust_greenlet_count s =
     (if int (length (greenlets s)) < max_workers s then
        let g = next_gid s;
            s1 = s\<lparr>next_gid := Suc g, greenlets := set_add g (greenlets s)\<rparr>
        in green_idle g s1
      else s)"

text \<open>
  Modelled from the spec: \<^verbatim>\<open>pulsar.async\<close>, which is not among the sources. The spec has
  the dispatch loop run on the host event loop, one per task in flight: the coroutine
  is wrapped in a task whose first step the loop runs later.
\<close>

definition async_green_task :: "nat \<Rightarrow> task option \<Rightarrow> pool \<Rightarrow> pool" where
  "async_green_task g task s =
     call_soon (GreenTask g task) (s\<lparr>dispatched := dispatched s @ [(g, task)]\<rparr>)"

definition check_queue :: "nat \<Rightarrow> pool \<Rightarrow> pool" where
  "check_queue c s =
     (case deque_pop (queue s) of
        None \<Rightarrow> s
      | Some (task, q) \<Rightarrow>
          let s1 = s\<lparr>queue := q\<rparr> in
          if available s1 \<noteq> [] then
            let (g, av) = set_pop c (available s1)
            in async_green_task g task (s1\<lparr>available := av\<rparr>)
          else s1)"

text \<open>\<^verbatim>\<open>if task:\<close> holds for a task, a tuple of four, and fails for \<^verbatim>\<open>None\<close>.\<close>

definition put :: "nat \<Rightarrow> task option \<Rightarrow> pool \<Rightarrow> pool" where
  "put c task s =
     (let s1 = (if task \<noteq> None then adjust_greenlet_count s else s);
          s2 = s1\<lparr>queue := deque_appendleft task (queue s1)\<rparr>
      in check_queue c s2)"

definition submit :: "nat \<Rightarrow> prog \<Rightarrow> pool \<Rightarrow> (exn + fut) \<times> pool" where
  "submit c func s =
     (if shutdown_flag s then
        (Inl (RuntimeError ''cannot schedule new futures after shutdown''), s)
      else
        let future = PoolFut (next_fid s);
            s1 = s\<lparr>next_fid := Suc (next_fid s), futures := (futures s)(future := Pending [])\<rparr>
        in (Inr future, put c (Some (future, func)) s1))"

definition shutdown :: "nat \<Rightarrow> bool \<Rightarrow> pool \<Rightarrow> fut option \<times> pool" where
  "shutdown c wt s =
     (let s1 = put c None (s\<lparr>shutdown_flag := True\<rparr>) in
      if wt then
        let w = PoolFut (next_fid s1)
        in (Some w, s1\<lparr>next_fid := Suc (next_fid s1), futures := (futures s1)(w := Pending []),
                        waiter := Some w\<rparr>)
      else (None, s1))"

subsection \<open>A worker greenlet and the coroutine that drives it\<close>

text \<open>
  An exception that leaves \<^verbatim>\<open>_green_run\<close>: the greenlet is dead and the exception is raised
  in the parent, at the \<^verbatim>\<open>greenlet.switch\<close> of \<^verbatim>\<open>_green_task\<close>. The first component of the
  result of the functions below is the exception raised there, if any.
\<close>

definition green_dies :: "nat \<Rightarrow> exn \<Rightarrow> pool \<Rightarrow> exn option \<times> pool" where
  "green_dies g e s = (Some e, s\<lparr>contexts := (contexts s)(g := Dead)\<rparr>)"

text \<open>
  \<^verbatim>\<open>future.set_exception(exc)\<close> or \<^verbatim>\<open>future.set_result(result)\<close> in \<^verbatim>\<open>_green_run\<close>. If the
  call raises, in the \<^verbatim>\<open>except\<close> or the \<^verbatim>\<open>else\<close> clause, the exception leaves
  \<^verbatim>\<open>_green_run\<close>. Otherwise the loop takes its next turn: the greenlet is idle again and its
  parent, which gets \<^verbatim>\<open>()\<close>, leaves the loop of \<^verbatim>\<open>_green_task\<close>.
\<close>

definition green_resolve :: "nat \<Rightarrow> fut \<Rightarrow> exn + val \<Rightarrow> pool \<Rightarrow> exn option \<times> pool" where
  "green_resolve g future out s =
     (case resolve future out s of
        (Some e, s1) \<Rightarrow> green_dies g e s1
      | (None, s1) \<Rightarrow> (None, green_idle g s1))"

text \<open>
  The callable of a task run in greenlet \<open>g\<close>, from where it stands, together with the
  loop of \<^verbatim>\<open>_green_task\<close> on the other side of the switch:
  \<^verbatim>\<open>while is_async(result): result = greenlet.switch((yield from result))\<close>.
  A return or an \<^verbatim>\<open>Exception\<close> resolves the future (\<^verbatim>\<open>try\<close>/\<^verbatim>\<open>except Exception\<close>/\<^verbatim>\<open>else\<close>);
  any other raised object leaves the greenlet. At \<^verbatim>\<open>wait(v)\<close> the parent gets \<open>v\<close>: if it is
  a future that is done with a result, the greenlet is switched into again with that
  result; if it is done with an exception, \<^verbatim>\<open>yield from\<close> raises it in the coroutine; if it
  is pending, the coroutine waits for it; and if \<open>v\<close> is not a future the coroutine ends.
  In the last three cases the greenlet stays suspended in \<^verbatim>\<open>wait\<close>.
\<close>

primrec green_call :: "prog \<Rightarrow> nat \<Rightarrow> fut \<Rightarrow> pool \<Rightarrow> exn option \<times> pool" where
  "green_call (Return v) g future s = green_resolve g future (Inr v) s"
| "green_call (Raise e) g future s =
     (if is_Exception e then green_resolve g future (Inl e) s else green_dies g e s)"
| "green_call (Wait v k) g future s =
     (case wait (GreenletWorker g) v of
        Returned x \<Rightarrow> green_call (k x) g future s
      | SwitchedTo p x \<Rightarrow>
          (case x of
             VFuture f \<Rightarrow>
               (case futures s f of
                  Done (Inr y) \<Rightarrow> green_call (k y) g future s
                | Done (Inl e) \<Rightarrow> (Some e, s\<lparr>contexts := (contexts s)(g := InTask future k)\<rparr>)
                | Pending ws \<Rightarrow>
                    (None, s\<lparr>contexts := (contexts s)(g := InTask future k),
                             futures := (futures s)(f := Pending (ws @ [g]))\<rparr>))
           | _ \<Rightarrow> (None, s\<lparr>contexts := (contexts s)(g := InTask future k)\<rparr>)))"

text \<open>
  The \<^verbatim>\<open>else\<close> branch of \<^verbatim>\<open>_green_run\<close>, taken when the greenlet is handed \<^verbatim>\<open>None\<close>: it
  leaves \<^verbatim>\<open>_greenlets\<close>, passes the sentinel on if other greenlets are left, and
  otherwise resolves the waiter if there is one; then \<^verbatim>\<open>_green_run\<close> returns. The
  greenlet is in \<^verbatim>\<open>_greenlets\<close> since \<^verbatim>\<open>_adjust_greenlet_count\<close> created it, so that
  \<^verbatim>\<open>remove\<close> finds it.
\<close>

definition green_exit :: "nat \<Rightarrow> nat \<Rightarrow> pool \<Rightarrow> exn option \<times> pool" where
  "green_exit c g s =
     (let s1 = s\<lparr>greenlets := set_remove g (greenlets s)\<rparr> in
      if greenlets s1 \<noteq> [] then
        (let s2 = put c None s1 in (None, s2\<lparr>contexts := (contexts s2)(g := Dead)\<rparr>))
      else
        (case waiter s1 of
           Some w \<Rightarrow>
             (case set_result w VNone s1 of
                (Some e, s2) \<Rightarrow> green_dies g e s2
              | (None, s2) \<Rightarrow> (None, s2\<lparr>waiter := None, contexts := (contexts s2)(g := Dead)\<rparr>))
         | None \<Rightarrow> (None, s1\<lparr>contexts := (contexts s1)(g := Dead)\<rparr>)))"

text \<open>
  The first step of \<^verbatim>\<open>_green_task(greenlet, task)\<close>: \<^verbatim>\<open>result = greenlet.switch(task)\<close>
  into a greenlet that \<^verbatim>\<open>_check_queue\<close> took from \<^verbatim>\<open>_available\<close>, which is idle. The
  pool hands a task to no other greenlet; for one that is not idle the state is left as it
  is.
\<close>

definition green_task :: "nat \<Rightarrow> nat \<Rightarrow> task option \<Rightarrow> pool \<Rightarrow> exn option \<times> pool" where
  "green_task c g task s =
     (case contexts s g of
        Idle \<Rightarrow>
          (case task of
             Some (future, func) \<Rightarrow> green_call func g future s
           | None \<Rightarrow> green_exit c g s)
      | _ \<Rightarrow> (None, s))"

text \<open>
  The coroutine resumed after the future it waited for is done: \<^verbatim>\<open>yield from\<close> returns
  the result, which is switched into the greenlet, or raises the exception. Only a
  coroutine whose greenlet is suspended in \<^verbatim>\<open>wait\<close> waits for a future.
\<close>

definition green_task_wakeup :: "nat \<Rightarrow> fut \<Rightarrow> pool \<Rightarrow> exn option \<times> pool" where
  "green_task_wakeup g f s =
     (case futures s f of
        Done (Inr y) \<Rightarrow>
          (case contexts s g of
             InTask future k \<Rightarrow> green_call (k y) g future s
           | _ \<Rightarrow> (None, s))
      | Done (Inl e) \<Rightarrow> (Some e, s)
      | Pending _ \<Rightarrow> (None, s))"

subsection \<open>The host loop and the pool's environment\<close>

text \<open>The loop runs the oldest ready callback.\<close>

definition run_once :: "nat \<Rightarrow> pool \<Rightarrow> exn option \<times> pool" where
  "run_once c s =
     (case ready s of
        [] \<Rightarrow> (None, s)
      | cb # rest \<Rightarrow>
          let s1 = s\<lparr>ready := rest\<rparr> in
          (case cb of
             CheckQueue \<Rightarrow> (None, check_queue c s1)
           | GreenTask g task \<Rightarrow> green_task c g task s1
           | Wakeup g f \<Rightarrow> green_task_wakeup g f s1))"

text \<open>
  What can happen to a pool: a call of \<^verbatim>\<open>submit\<close> or \<^verbatim>\<open>shutdown\<close> from the main greenlet,
  one callback run by the loop, or a user future resolved from outside. Each event comes
  with the choice \<^verbatim>\<open>set.pop()\<close> makes during it, if it pops.
\<close>

datatype event = Submit prog | Shutdown bool | RunOnce | SetResult nat "exn + val"

fun step :: "nat \<times> event \<Rightarrow> pool \<Rightarrow> pool" where
  "step (c, Submit func) s = snd (submit c func s)"
| "step (c, Shutdown wt) s = snd (shutdown c wt s)"
| "step (c, RunOnce) s = snd (run_once c s)"
| "step (c, SetResult n out) s = snd (resolve (UserFut n) out s)"

definition run :: "(nat \<times> event) list \<Rightarrow> pool \<Rightarrow> pool" where
  "run es s = foldl (\<lambda>s e. step e s) s es"

section \<open>The worker of \<open>pulsar/workers/base.py\<close> and \<open>pulsar/workers/async.py\<close>\<close>

text \<open>
  What a worker does that can be seen from outside, in the order it does it: a line
  logged, its own \<^verbatim>\<open>close()\<close>, \<^verbatim>\<open>ioloop.stop()\<close>, the two hooks of the configuration, the
  request handler, and for the asynchronous worker \<^verbatim>\<open>resp.force_close()\<close> and
  \<^verbatim>\<open>util.write_error\<close>. Requests are named by numbers.
\<close>

datatype wevent =
    EvLog string
  | EvClose
  | EvLoopStop
  | EvPreRequest nat
  | EvHandle nat
  | EvPostRequest nat
  | EvForceClose
  | EvWriteError

text \<open>
  The fields of a worker that request handling reads or writes. \<open>ioloop\<close> is \<open>None\<close> while
  the attribute does not exist (before \<^verbatim>\<open>setup\<close>, or in another process) and otherwise
  holds what \<^verbatim>\<open>ioloop.running()\<close> returns. \<open>alive\<close> belongs to the asynchronous worker.
\<close>

record worker =
  nr :: int
  max_requests :: int
  ioloop :: "bool option"
  alive :: bool
  debug :: bool
  trace :: "wevent list"

text \<open>
  The hooks \<^verbatim>\<open>cfg.pre_request(self, req)\<close> and \<^verbatim>\<open>cfg.post_request(self, req)\<close>: each returns
  (\<open>None\<close>) or raises.
\<close>

record config =
  pre_request :: "nat \<Rightarrow> exn option"
  post_request :: "nat \<Rightarrow> exn option"

text \<open>\<^verbatim>\<open>sys.maxsize\<close> of a 64-bit build.\<close>

definition sys_maxsize :: int where
  "sys_maxsize = 2 ^ 63 - 1"

text \<open>
  \<^verbatim>\<open>self.nr = 0\<close> and \<^verbatim>\<open>self.max_requests = getattr(cfg,'max_requests',None) or sys.maxsize\<close>
  in \<^verbatim>\<open>Worker.__init__\<close>; the loop is created later, in \<^verbatim>\<open>setup\<close>.
\<close>

definition Worker_init :: "int option \<Rightarrow> bool \<Rightarrow> worker" where
  "Worker_init cfg_max_requests cfg_debug =
     \<lparr>nr = 0, max_requests = py_or cfg_max_requests sys_maxsize, ioloop = None,
      alive = True, debug = cfg_debug, trace = []\<rparr>"

definition log_info :: "string \<Rightarrow> worker \<Rightarrow> worker" where
  "log_info msg w = w\<lparr>trace := trace w @ [EvLog msg]\<rparr>"

text \<open>
  Modelled from the spec: \<^verbatim>\<open>self.close()\<close> and \<^verbatim>\<open>IOLoop.stop()\<close>, which are not among the
  sources. Stopping is to stop accepting new work and to close the loop: after
  \<^verbatim>\<open>stop()\<close> the loop no longer reports that it is running.
\<close>

definition close :: "worker \<Rightarrow> worker" where
  "close w = w\<lparr>trace := trace w @ [EvClose]\<rparr>"

definition ioloop_stop :: "worker \<Rightarrow> worker" where
  "ioloop_stop w = w\<lparr>ioloop := Some False, trace := trace w @ [EvLoopStop]\<rparr>"

text \<open>\<^verbatim>\<open>Worker._stop\<close>.\<close>

definition stop :: "worker \<Rightarrow> worker" where
  "stop w =
     (case ioloop w of
        None \<Rightarrow> w
      | Some running \<Rightarrow> if running then ioloop_stop (close w) else w)"

definition check_num_requests :: "worker \<Rightarrow> worker" where
  "check_num_requests w =
     (if max_requests w \<noteq> 0 \<and> nr w \<ge> max_requests w then
        stop (log_info ''Auto-restarting worker after current request.'' w)
      else w)"

text \<open>
  \<^verbatim>\<open>try: hook() except: pass\<close>: whatever the hook raises is dropped.
  \<^verbatim>\<open>try: body finally: cleanup\<close>: an exception of the cleanup takes the place of the
  outcome of the body, and otherwise that outcome stands.
\<close>

definition swallowed :: "exn option \<Rightarrow> exn option" where
  "swallowed hook = (case hook of Some e \<Rightarrow> None | None \<Rightarrow> None)"

definition try_finally :: "'a \<Rightarrow> (exn \<Rightarrow> 'a) \<Rightarrow> exn option \<Rightarrow> 'a" where
  "try_finally body raise cleanup = (case cleanup of Some e \<Rightarrow> raise e | None \<Rightarrow> body)"

text \<open>
  \<^verbatim>\<open>Worker.handle_request(fd, req)\<close>. \<^verbatim>\<open>_handle_request\<close> is left to the subclasses and is
  the argument \<open>handler\<close>; the result is the exception the call raises, if any.
\<close>

definition handle_request :: "config \<Rightarrow> (nat \<Rightarrow> exn option) \<Rightarrow> nat \<Rightarrow> worker \<Rightarrow> exn option \<times> worker" where
  "handle_request cfg handler req w =
     (let w1 = w\<lparr>nr := nr w + 1\<rparr>;
          w2 = check_num_requests w1;
          w3 = w2\<lparr>trace := trace w2 @ [EvPreRequest req]\<rparr>
      in case pre_request cfg req of
           Some e \<Rightarrow> (Some e, w3)
         | None \<Rightarrow>
             let w4 = w3\<lparr>trace := trace w3 @ [EvHandle req]\<rparr>;
                 body = handler req;
                 w5 = w4\<lparr>trace := trace w4 @ [EvPostRequest req]\<rparr>
             in (try_finally body Some (swallowed (post_request cfg req)), w5))"

text \<open>
  Modelled from the spec: the loop that hands the requests to the worker, which is not
  among the sources. Once stopping is triggered no new request is accepted: a request is
  handed to \<^verbatim>\<open>handle_request\<close> only while the loop is running, and an exception that
  \<^verbatim>\<open>handle_request\<close> raises does not end the worker.
\<close>

definition serve :: "config \<Rightarrow> (nat \<Rightarrow> exn option) \<Rightarrow> nat list \<Rightarrow> worker \<Rightarrow> worker" where
  "serve cfg handler reqs w =
     foldl (\<lambda>w req. if ioloop w = Some True then snd (handle_request cfg handler req w) else w) w reqs"

text \<open>
  What the calls made by \<^verbatim>\<open>AsyncWorker.handle_request\<close> into its collaborators do for one
  request, each returning or raising: the two hooks, \<^verbatim>\<open>wsgi.create\<close>, \<^verbatim>\<open>resp.force_close()\<close>,
  the application (\<open>Inr True\<close> when it returns \<^verbatim>\<open>ALREADY_HANDLED\<close>), the loop writing the
  items, \<^verbatim>\<open>resp.close()\<close>, \<^verbatim>\<open>respiter.close()\<close> where the iterator has one,
  \<^verbatim>\<open>req.should_close()\<close> and \<^verbatim>\<open>util.write_error\<close>.
\<close>

record async_env =
  e_pre_request :: "exn option"
  e_create :: "exn option"
  e_force_close :: "exn option"
  e_wsgi :: "exn + bool"
  e_write :: "exn option"
  e_resp_close :: "exn option"
  e_respiter_close :: "exn option"
  e_should_close :: "exn + bool"
  e_write_error :: "exn option"
  e_post_request :: "exn option"

text \<open>
  The count and the threshold of the asynchronous worker:
  \<^verbatim>\<open>self.nr += 1; if self.alive and self.nr >= self.max_requests: ...\<close>.
\<close>

definition async_count :: "async_env \<Rightarrow> worker \<Rightarrow> exn option \<times> worker" where
  "async_count env w =
     (let w1 = w\<lparr>nr := nr w + 1\<rparr> in
      if alive w1 \<and> nr w1 \<ge> max_requests w1 then
        let w2 = log_info ''Autorestarting worker after current request.'' w1;
            w3 = w2\<lparr>trace := trace w2 @ [EvForceClose]\<rparr>
        in case e_force_close env of
             Some e \<Rightarrow> (Some e, w3)
           | None \<Rightarrow> (None, w3\<lparr>alive := False\<rparr>)
      else (None, w1))"

text \<open>
  The rest of the \<^verbatim>\<open>try\<close> block, from the call of the application on. \<open>Inr (Some b)\<close> is
  \<^verbatim>\<open>return b\<close> inside the block and \<open>Inr None\<close> is its end.
\<close>

definition async_respond :: "async_env \<Rightarrow> exn + bool option" where
  "async_respond env =
     (case e_wsgi env of
        Inl e \<Rightarrow> Inl e
      | Inr True \<Rightarrow> Inr (Some False)
      | Inr False \<Rightarrow>
          (case e_write env of
             Some e \<Rightarrow> Inl e
           | None \<Rightarrow>
               (case e_resp_close env of
                  Some e \<Rightarrow> Inl e
                | None \<Rightarrow>
                    (case e_respiter_close env of
                       Some e \<Rightarrow> Inl e
                     | None \<Rightarrow>
                         (case e_should_close env of
                            Inl e \<Rightarrow> Inl e
                          | Inr True \<Rightarrow> Inl StopIteration
                          | Inr False \<Rightarrow> Inr None)))))"

definition async_try :: "async_env \<Rightarrow> nat \<Rightarrow> worker \<Rightarrow> (exn + bool option) \<times> worker" where
  "async_try env req w =
     (let w1 = w\<lparr>trace := trace w @ [EvPreRequest req]\<rparr> in
      case e_pre_request env of
        Some e \<Rightarrow> (Inl e, w1)
      | None \<Rightarrow>
          (case e_create env of
             Some e \<Rightarrow> (Inl e, w1)
           | None \<Rightarrow>
               (case async_count env w1 of
                  (Some e, w2) \<Rightarrow> (Inl e, w2)
                | (None, w2) \<Rightarrow> (async_respond env, w2\<lparr>trace := trace w2 @ [EvHandle req]\<rparr>))))"

text \<open>
  \<^verbatim>\<open>except StopIteration: raise\<close>, then \<^verbatim>\<open>except Exception\<close>, which raises again unless
  \<^verbatim>\<open>self.debug\<close> is set and otherwise writes the error and returns \<^verbatim>\<open>False\<close>; anything else
  passes through.
\<close>

definition async_except :: "async_env \<Rightarrow> exn \<Rightarrow> worker \<Rightarrow> (exn + bool option) \<times> worker" where
  "async_except env e w =
     (if e = StopIteration then (Inl e, w)
      else if is_Exception e then
        (if \<not> debug w then (Inl e, w)
         else
           let w1 = w\<lparr>trace := trace w @ [EvWriteError]\<rparr> in
           case e_write_error env of
             Some e' \<Rightarrow> (Inl e', w1)
           | None \<Rightarrow> (Inr (Some False), w1))
      else (Inl e, w))"

text \<open>
  \<^verbatim>\<open>AsyncWorker.handle_request(req, sock, addr)\<close>: the \<^verbatim>\<open>try\<close> block with its handlers, the
  \<^verbatim>\<open>finally\<close> clause calling the hook, and \<^verbatim>\<open>return True\<close> at the end.
\<close>

definition async_handle_request :: "async_env \<Rightarrow> nat \<Rightarrow> worker \<Rightarrow> (exn + bool) \<times> worker" where
  "async_handle_request env req w =
     (let (body, w1) = (case async_try env req w of
                          (Inl e, w') \<Rightarrow> async_except env e w'
                        | (Inr r, w') \<Rightarrow> (Inr r, w'));
          w2 = w1\<lparr>trace := trace w1 @ [EvPostRequest req]\<rparr>;
          result = (case body of Inl e \<Rightarrow> Inl e | Inr (Some b) \<Rightarrow> Inr b | Inr None \<Rightarrow> Inr True)
      in (try_finally result Inl (swallowed (e_post_request env)), w2))"

text \<open>
  A configuration whose hooks return, a handler that returns, a configuration whose
  \<^verbatim>\<open>pre_request\<close> hook raises, and the same for the calls of the asynchronous worker.
\<close>

definition quiet_config :: config where
  "quiet_config = \<lparr>pre_request = (\<lambda>req. None), post_request = (\<lambda>req. None)\<rparr>"

definition plain_handler :: "nat \<Rightarrow> exn option" where
  "plain_handler req = None"

definition raising_config :: config where
  "raising_config =
     \<lparr>pre_request = (\<lambda>req. Some (OtherException ''pre_request'')), post_request = (\<lambda>req. None)\<rparr>"

definition raising_env :: async_env where
  "raising_env =
     \<lparr>e_pre_request = Some (OtherException ''pre_request''), e_create = None, e_force_close = None,
      e_wsgi = Inr False, e_write = None, e_resp_close = None, e_respiter_close = None,
      e_should_close = Inr False, e_write_error = None, e_post_request = None\<rparr>"

section \<open>Invariants\<close>

text \<open>
  The live greenlets are kept without duplicates, each was created before the next one
  to be created, and they are no more than the bound allows.
\<close>

definition live_inv :: "pool \<Rightarrow> bool" where
  "live_inv s \<longleftrightarrow>
     distinct (greenlets s) \<and> (\<forall>g \<in> set (greenlets s). g < next_gid s) \<and>
     length (greenlets s) \<le> nat (max_workers s)"

text \<open>
  Dispatch order. \<open>dispatched_tasks\<close> reads the tasks off the trace of dispatches, in the
  order of the calls (sentinels left out). \<open>submitted es n\<close> is the list of tasks that the
  calls of \<^verbatim>\<open>submit\<close> among the events \<open>es\<close> enqueue, in the order of the calls, when
  none of them fails and the pool has created \<open>n\<close> futures before: each call creates
  the next future. \<open>oldest_first\<close> reads a deque from its right end, where the entry that
  was appended first sits.
\<close>

primrec some_tasks :: "(nat \<times> task option) list \<Rightarrow> task list" where
  "some_tasks [] = []"
| "some_tasks (d # ds) = (case snd d of Some t \<Rightarrow> t # some_tasks ds | None \<Rightarrow> some_tasks ds)"

definition dispatched_tasks :: "pool \<Rightarrow> task list" where
  "dispatched_tasks s = some_tasks (dispatched s)"

fun submitted :: "(nat \<times> event) list \<Rightarrow> nat \<Rightarrow> task list" where
  "submitted [] n = []"
| "submitted ((c, Submit func) # es) n = (PoolFut n, func) # submitted es (Suc n)"
| "submitted (e # es) n = submitted es n"

fun is_Shutdown :: "event \<Rightarrow> bool" where
  "is_Shutdown (Shutdown wt) = True"
| "is_Shutdown _ = False"

definition no_shutdown :: "(nat \<times> event) list \<Rightarrow> bool" where
  "no_shutdown es = list_all (\<lambda>e. \<not> is_Shutdown (snd e)) es"

definition oldest_first :: "'a list \<Rightarrow> 'a list" where
  "oldest_first q = rev q"

section \<open>Scenarios\<close>

text \<open>
  A task that sleeps and then returns its index: it calls \<^verbatim>\<open>wait\<close> on the future of a
  sleep and returns \<open>i\<close> when that call returns. The scenario submits five of them in
  a row, lets the loop run its four callbacks, lets the five sleeps end, and lets the loop
  run again.
\<close>

definition sleeper :: "nat \<Rightarrow> prog" where
  "sleeper i = Wait (VFuture (UserFut i)) (\<lambda>_. Return (VInt (int i)))"

definition five_sleepers :: "(nat \<times> event) list" where
  "five_sleepers =
     map (\<lambda>i. (0, Submit (sleeper i))) [0, 1, 2, 3, 4] @
     replicate 4 (0, RunOnce) @
     map (\<lambda>i. (0, SetResult i (Inr VNone))) [0, 1, 2, 3, 4] @
     replicate 4 (0, RunOnce)"

text \<open>
  Two such tasks submitted in a row to a pool with one greenlet: the loop runs its two
  callbacks, the two sleeps end, and the loop runs again.
\<close>

definition two_sleepers :: "(nat \<times> event) list" where
  "two_sleepers =
     [(0, Submit (sleeper 0)), (0, Submit (sleeper 1)), (0, RunOnce), (0, RunOnce),
      (0, SetResult 0 (Inr VNone)), (0, SetResult 1 (Inr VNone)), (0, RunOnce), (0, RunOnce)]"

text \<open>
  A task that calls \<^verbatim>\<open>wait(5)\<close>, on a value that is not a future, and returns what the
  call returns. \<open>in_wait\<close> tells a greenlet that is suspended inside \<^verbatim>\<open>wait\<close>.
\<close>

definition echo_plain :: prog where
  "echo_plain = Wait (VInt 5) (\<lambda>x. Return x)"

fun in_wait :: "gstate \<Rightarrow> bool" where
  "in_wait (InTask future k) = True"
| "in_wait _ = False"

text \<open>
  A pool that was shut down with no greenlet left and nothing scheduled, while the first
  future it created is pending and no user future has a coroutine waiting for it.
\<close>

definition drained :: "pool \<Rightarrow> bool" where
  "drained s \<longleftrightarrow> shutdown_flag s \<and> greenlets s = [] \<and> available s = [] \<and> queue s = [] \<and>
     ready s = [] \<and> futures s (PoolFut 0) = Pending [] \<and> 0 < next_fid s \<and>
     (\<forall>n. futures s (UserFut n) = Pending [] \<or> (\<exists>out. futures s (UserFut n) = Done out))"

section \<open>What each operation leaves alone\<close>

lemma set_outcome_frame:
  "max_workers (snd (set_outcome f out s)) = max_workers s"
  "greenlets (snd (set_outcome f out s)) = greenlets s"
  "available (snd (set_outcome f out s)) = available s"
  "queue (snd (set_outcome f out s)) = queue s"
  "shutdown_flag (snd (set_outcome f out s)) = shutdown_flag s"
  "waiter (snd (set_outcome f out s)) = waiter s"
  "next_gid (snd (set_outcome f out s)) = next_gid s"
  "next_fid (snd (set_outcome f out s)) = next_fid s"
  "dispatched (snd (set_outcome f out s)) = dispatched s"
  by (simp_all add: set_outcome_def split: fstate.splits)

lemma resolve_frame:
  "max_workers (snd (resolve f out s)) = max_workers s"
  "greenlets (snd (resolve f out s)) = greenlets s"
  "available (snd (resolve f out s)) = available s"
  "queue (snd (resolve f out s)) = queue s"
  "shutdown_flag (snd (resolve f out s)) = shutdown_flag s"
  "waiter (snd (resolve f out s)) = waiter s"
  "next_gid (snd (resolve f out s)) = next_gid s"
  "next_fid (snd (resolve f out s)) = next_fid s"
  "dispatched (snd (resolve f out s)) = dispatched s"
  by (simp_all add: resolve_def set_result_def set_exception_def set_outcome_frame
      split: sum.splits fstate.splits)

lemma green_idle_frame:
  "max_workers (green_idle g s) = max_workers s"
  "greenlets (green_idle g s) = greenlets s"
  "queue (green_idle g s) = queue s"
  "shutdown_flag (green_idle g s) = shutdown_flag s"
  "waiter (green_idle g s) = waiter s"
  "next_gid (green_idle g s) = next_gid s"
  "next_fid (green_idle g s) = next_fid s"
  "dispatched (green_idle g s) = dispatched s"
  by (simp_all add: green_idle_def call_soon_def)

lemma green_resolve_frame:
  "max_workers (snd (green_resolve g f out s)) = max_workers s"
  "greenlets (snd (green_resolve g f out s)) = greenlets s"
  "queue (snd (green_resolve g f out s)) = queue s"
  "shutdown_flag (snd (green_resolve g f out s)) = shutdown_flag s"
  "waiter (snd (green_resolve g f out s)) = waiter s"
  "next_gid (snd (green_resolve g f out s)) = next_gid s"
  "next_fid (snd (green_resolve g f out s)) = next_fid s"
  "dispatched (snd (green_resolve g f out s)) = dispatched s"
proof -
  obtain r s1 where eq: "resolve f out s = (r, s1)"
    by (cases "resolve f out s")
  note fr = resolve_frame [of f out s, unfolded eq snd_conv]
  have "snd (green_resolve g f out s) = s1\<lparr>contexts := (contexts s1)(g := Dead)\<rparr> \<or>
        snd (green_resolve g f out s) = green_idle g s1"
    by (cases r) (simp_all add: green_resolve_def eq green_dies_def)
  then show "max_workers (snd (green_resolve g f out s)) = max_workers s"
    and "greenlets (snd (green_resolve g f out s)) = greenlets s"
    and "queue (snd (green_resolve g f out s)) = queue s"
    and "shutdown_flag (snd (green_resolve g f out s)) = shutdown_flag s"
    and "waiter (snd (green_resolve g f out s)) = waiter s"
    and "next_gid (snd (green_resolve g f out s)) = next_gid s"
    and "next_fid (snd (green_resolve g f out s)) = next_fid s"
    and "dispatched (snd (green_resolve g f out s)) = dispatched s"
    by (auto simp add: fr green_idle_frame)
qed

lemma green_call_frame:
  "max_workers (snd (green_call p g f s)) = max_workers s \<and>
   greenlets (snd (green_call p g f s)) = greenlets s \<and>
   queue (snd (green_call p g f s)) = queue s \<and>
   shutdown_flag (snd (green_call p g f s)) = shutdown_flag s \<and>
   waiter (snd (green_call p g f s)) = waiter s \<and>
   next_gid (snd (green_call p g f s)) = next_gid s \<and>
   next_fid (snd (green_call p g f s)) = next_fid s \<and>
   dispatched (snd (green_call p g f s)) = dispatched s"
proof (induction p)
  case (Return v)
  show ?case by (simp add: green_resolve_frame)
next
  case (Raise e)
  show ?case by (simp add: green_resolve_frame green_dies_def)
next
  case (Wait v k)
  show ?case
  proof (cases v)
    case (VFuture h)
    show ?thesis
    proof (cases "futures s h")
      case (Pending ws)
      with VFuture show ?thesis by (simp add: wait_def)
    next
      case (Done out)
      show ?thesis
      proof (cases out)
        case (Inl e)
        with Done VFuture show ?thesis by (simp add: wait_def)
      next
        case (Inr y)
        with Done VFuture Wait.IH [of "k y"] show ?thesis by (simp add: wait_def)
      qed
    qed
  qed (simp_all add: wait_def)
qed


lemma check_queue_frame:
  "max_workers (check_queue c s) = max_workers s"
  "greenlets (check_queue c s) = greenlets s"
  "shutdown_flag (check_queue c s) = shutdown_flag s"
  "waiter (check_queue c s) = waiter s"
  "next_gid (check_queue c s) = next_gid s"
  "next_fid (check_queue c s) = next_fid s"
  "futures (check_queue c s) = futures s"
  "contexts (check_queue c s) = contexts s"
  by (simp_all add: check_queue_def async_green_task_def call_soon_def Let_def
      split: option.splits prod.splits)

lemma adjust_frame:
  "max_workers (adjust_greenlet_count s) = max_workers s"
  "queue (adjust_greenlet_count s) = queue s"
  "shutdown_flag (adjust_greenlet_count s) = shutdown_flag s"
  "waiter (adjust_greenlet_count s) = waiter s"
  "next_fid (adjust_greenlet_count s) = next_fid s"
  "futures (adjust_greenlet_count s) = futures s"
  "dispatched (adjust_greenlet_count s) = dispatched s"
  by (simp_all add: adjust_greenlet_count_def green_idle_def call_soon_def Let_def)

lemma put_frame:
  "max_workers (put c t s) = max_workers s"
  "shutdown_flag (put c t s) = shutdown_flag s"
  "waiter (put c t s) = waiter s"
  "next_fid (put c t s) = next_fid s"
  "futures (put c t s) = futures s"
  by (simp_all add: put_def Let_def check_queue_frame adjust_frame)

lemma put_None_frame:
  "greenlets (put c None s) = greenlets s"
  "next_gid (put c None s) = next_gid s"
  "contexts (put c None s) = contexts s"
  by (simp_all add: put_def Let_def check_queue_frame)

lemma green_exit_frame:
  "max_workers (snd (green_exit c g s)) = max_workers s"
  "shutdown_flag (snd (green_exit c g s)) = shutdown_flag s"
  "next_gid (snd (green_exit c g s)) = next_gid s"
  "next_fid (snd (green_exit c g s)) = next_fid s"
  "greenlets (snd (green_exit c g s)) = set_remove g (greenlets s)"
  by (simp_all add: green_exit_def Let_def put_frame put_None_frame green_dies_def
      set_result_def set_outcome_def split: option.splits prod.splits fstate.splits)

lemma green_task_frame:
  "max_workers (snd (green_task c g t s)) = max_workers s"
  "shutdown_flag (snd (green_task c g t s)) = shutdown_flag s"
  "next_gid (snd (green_task c g t s)) = next_gid s"
  "next_fid (snd (green_task c g t s)) = next_fid s"
  by (simp_all add: green_task_def green_exit_frame green_call_frame
      split: gstate.splits option.splits prod.splits)

lemma green_task_wakeup_frame:
  "max_workers (snd (green_task_wakeup g f s)) = max_workers s"
  "greenlets (snd (green_task_wakeup g f s)) = greenlets s"
  "queue (snd (green_task_wakeup g f s)) = queue s"
  "shutdown_flag (snd (green_task_wakeup g f s)) = shutdown_flag s"
  "waiter (snd (green_task_wakeup g f s)) = waiter s"
  "next_gid (snd (green_task_wakeup g f s)) = next_gid s"
  "next_fid (snd (green_task_wakeup g f s)) = next_fid s"
  "dispatched (snd (green_task_wakeup g f s)) = dispatched s"
  by (simp_all add: green_task_wakeup_def green_call_frame
      split: gstate.splits fstate.splits sum.splits)

lemma run_once_frame:
  "max_workers (snd (run_once c s)) = max_workers s"
  "shutdown_flag (snd (run_once c s)) = shutdown_flag s"
  "next_gid (snd (run_once c s)) = next_gid s"
  "next_fid (snd (run_once c s)) = next_fid s"
  by (simp_all add: run_once_def Let_def check_queue_frame green_task_frame
      green_task_wakeup_frame split: list.splits callback.splits)

lemma submit_max_workers: "max_workers (snd (submit c p s)) = max_workers s"
  by (simp add: submit_def Let_def put_frame)

lemma shutdown_max_workers: "max_workers (snd (shutdown c w s)) = max_workers s"
  by (simp add: shutdown_def Let_def put_frame)

lemma step_max_workers: "max_workers (step e s) = max_workers s"
proof (cases e)
  case (Pair c ev)
  then show ?thesis
    by (cases ev)
      (simp_all add: submit_max_workers shutdown_max_workers run_once_frame resolve_frame)
qed

lemma run_max_workers: "max_workers (run es s) = max_workers s"
  unfolding run_def by (induction es arbitrary: s) (simp_all add: step_max_workers)

lemma shutdown_sets_flag: "shutdown_flag (snd (shutdown c w s))"
  by (simp add: shutdown_def Let_def put_frame)

lemma step_keeps_flag:
  assumes "shutdown_flag s"
  shows "shutdown_flag (step e s)"
proof (cases e)
  case (Pair c ev)
  with assms show ?thesis
    by (cases ev) (simp_all add: submit_def shutdown_sets_flag run_once_frame resolve_frame)
qed

lemma run_keeps_flag: "shutdown_flag s \<Longrightarrow> shutdown_flag (run es s)"
  unfolding run_def by (induction es arbitrary: s) (simp_all add: step_keeps_flag)

lemma run_append: "run (es @ fs) s = run fs (run es s)"
  by (simp add: run_def)

lemma run_Cons: "run (e # es) s = run es (step e s)"
  by (simp add: run_def)

section \<open>The bound on live greenlets\<close>

lemma live_inv_cong:
  "greenlets t = greenlets s \<Longrightarrow> next_gid t = next_gid s \<Longrightarrow> max_workers t = max_workers s \<Longrightarrow>
   live_inv t = live_inv s"
  by (simp add: live_inv_def)

lemma live_inv_init: "live_inv (GreenPool_init mw)"
  by (simp add: live_inv_def GreenPool_init_def)

lemma adjust_greenlets:
  assumes "\<forall>g \<in> set (greenlets s). g < next_gid s"
  shows "greenlets (adjust_greenlet_count s) =
           (if int (length (greenlets s)) < max_workers s then greenlets s @ [next_gid s]
            else greenlets s)"
    and "next_gid (adjust_greenlet_count s) =
           (if int (length (greenlets s)) < max_workers s then Suc (next_gid s) else next_gid s)"
  using assms
  by (auto simp add: adjust_greenlet_count_def green_idle_def call_soon_def Let_def set_add_def)

lemma live_inv_adjust:
  assumes "live_inv s"
  shows "live_inv (adjust_greenlet_count s)"
proof -
  from assms have fresh: "\<forall>g \<in> set (greenlets s). g < next_gid s"
    by (simp add: live_inv_def)
  show ?thesis
  proof (cases "int (length (greenlets s)) < max_workers s")
    case True
    with assms fresh show ?thesis
      by (auto simp add: live_inv_def adjust_greenlets [OF fresh] adjust_frame less_Suc_eq)
  next
    case False
    with assms show ?thesis
      by (simp add: adjust_greenlet_count_def)
  qed
qed

lemma live_inv_check_queue: "live_inv (check_queue c s) = live_inv s"
  by (rule live_inv_cong) (simp_all add: check_queue_frame)

lemma live_inv_queue_update: "live_inv (s\<lparr>queue := q\<rparr>) = live_inv s"
  by (simp add: live_inv_def)

lemma live_inv_put:
  assumes "live_inv s"
  shows "live_inv (put c t s)"
  using assms
  by (simp add: put_def Let_def live_inv_check_queue live_inv_queue_update live_inv_adjust)

lemma live_inv_green_exit:
  assumes "live_inv s"
  shows "live_inv (snd (green_exit c g s))"
proof -
  have "length (removeAll g (greenlets s)) \<le> length (greenlets s)"
    by simp
  moreover from assms have "length (greenlets s) \<le> nat (max_workers s)"
    by (simp add: live_inv_def)
  ultimately have "length (removeAll g (greenlets s)) \<le> nat (max_workers s)"
    by (rule order_trans)
  with assms show ?thesis
    unfolding live_inv_def
    by (simp add: green_exit_frame set_remove_def distinct_removeAll)
qed

lemma live_inv_green_call: "live_inv (snd (green_call p g f s)) = live_inv s"
  by (rule live_inv_cong) (simp_all add: green_call_frame)

lemma live_inv_green_task:
  assumes "live_inv s"
  shows "live_inv (snd (green_task c g t s))"
  using assms
  by (simp add: green_task_def live_inv_green_exit live_inv_green_call
      split: gstate.splits option.splits prod.splits)

lemma live_inv_wakeup: "live_inv (snd (green_task_wakeup g f s)) = live_inv s"
  by (rule live_inv_cong) (simp_all add: green_task_wakeup_frame)

lemma live_inv_ready_update: "live_inv (s\<lparr>ready := r\<rparr>) = live_inv s"
  by (simp add: live_inv_def)

lemma live_inv_run_once:
  assumes "live_inv s"
  shows "live_inv (snd (run_once c s))"
  using assms
  by (simp add: run_once_def Let_def live_inv_check_queue live_inv_green_task live_inv_wakeup
      live_inv_ready_update split: list.splits callback.splits)

lemma live_inv_submit:
  assumes "live_inv s"
  shows "live_inv (snd (submit c p s))"
proof -
  have "live_inv (s\<lparr>next_fid := n, futures := fs\<rparr>)" for n fs
    using assms by (simp add: live_inv_def)
  then show ?thesis
    using assms by (simp add: submit_def Let_def live_inv_put)
qed

lemma live_inv_shutdown:
  assumes "live_inv s"
  shows "live_inv (snd (shutdown c w s))"
proof -
  from assms have "live_inv (s\<lparr>shutdown_flag := True\<rparr>)"
    by (simp add: live_inv_def)
  then have "live_inv (put c None (s\<lparr>shutdown_flag := True\<rparr>))"
    by (rule live_inv_put)
  then show ?thesis
    by (simp add: shutdown_def Let_def live_inv_def)
qed

lemma live_inv_resolve: "live_inv (snd (resolve f out s)) = live_inv s"
  by (rule live_inv_cong) (simp_all add: resolve_frame)

lemma live_inv_step:
  assumes "live_inv s"
  shows "live_inv (step e s)"
proof (cases e)
  case (Pair c ev)
  with assms show ?thesis
    by (cases ev)
      (simp_all add: live_inv_submit live_inv_shutdown live_inv_run_once live_inv_resolve)
qed

lemma live_inv_run:
  assumes "live_inv s"
  shows "live_inv (run es s)"
  using assms unfolding run_def
  by (induction es arbitrary: s) (simp_all add: live_inv_step)

lemma put_greenlets:
  assumes "\<forall>g \<in> set (greenlets s). g < next_gid s"
  shows "greenlets (put c t s) =
           (if t \<noteq> None \<and> int (length (greenlets s)) < max_workers s
            then greenlets s @ [next_gid s] else greenlets s)"
  using assms by (simp add: put_def Let_def check_queue_frame adjust_greenlets)

lemma run_once_greenlets: "set (greenlets (snd (run_once c s))) \<subseteq> set (greenlets s)"
  by (auto simp add: run_once_def Let_def check_queue_frame green_task_wakeup_frame green_task_def
      green_call_frame green_exit_frame set_remove_def
      split: list.splits callback.splits gstate.splits option.splits prod.splits)

lemma step_greenlets:
  assumes "live_inv s"
  shows "set (greenlets (step e s)) \<subseteq> set (greenlets s) \<or>
         (int (length (greenlets s)) < max_workers s \<and>
          greenlets (step e s) = greenlets s @ [next_gid s])"
proof -
  from assms have fresh: "\<forall>g \<in> set (greenlets s). g < next_gid s"
    by (simp add: live_inv_def)
  obtain c ev where e: "e = (c, ev)" by (cases e)
  show ?thesis
  proof (cases ev)
    case (Submit p)
    have "\<forall>g \<in> set (greenlets (s\<lparr>next_fid := n, futures := fs\<rparr>)).
            g < next_gid (s\<lparr>next_fid := n, futures := fs\<rparr>)" for n fs
      using fresh by simp
    then show ?thesis
      using e Submit by (simp add: submit_def Let_def put_greenlets)
  next
    case (Shutdown w)
    have "\<forall>g \<in> set (greenlets (s\<lparr>shutdown_flag := True\<rparr>)).
            g < next_gid (s\<lparr>shutdown_flag := True\<rparr>)"
      using fresh by simp
    then show ?thesis
      using e Shutdown by (simp add: shutdown_def Let_def put_greenlets)
  next
    case RunOnce
    with e show ?thesis by (simp add: run_once_greenlets)
  next
    case (SetResult n out)
    with e show ?thesis by (simp add: resolve_frame)
  qed
qed

section \<open>The queue between two events\<close>

lemma some_tasks_append: "some_tasks (xs @ ys) = some_tasks xs @ some_tasks ys"
  by (induction xs) (simp_all split: option.splits)

lemma submitted_append:
  "submitted (es @ fs) n = submitted es n @ submitted fs (n + length (submitted es n))"
  by (induction es n rule: submitted.induct) simp_all

lemma check_queue_empty: "queue s = [] \<Longrightarrow> check_queue c s = s"
  by (simp add: check_queue_def deque_pop_def)

lemma check_queue_pops:
  assumes "queue s \<noteq> []"
  shows "queue (check_queue c s) = butlast (queue s)"
    and "dispatched (check_queue c s) =
           (if available s \<noteq> [] then dispatched s @ [(fst (set_pop c (available s)), last (queue s))]
            else dispatched s)"
  using assms
  by (simp_all add: check_queue_def deque_pop_def async_green_task_def call_soon_def Let_def
      split: prod.splits)

lemma put_on_empty:
  assumes "queue s = []"
  shows "queue (put c t s) = []"
    and "dispatched (put c t s) = dispatched s \<or> (\<exists>g. dispatched (put c t s) = dispatched s @ [(g, t)])"
proof -
  let ?s1 = "if t \<noteq> None then adjust_greenlet_count s else s"
  let ?s2 = "?s1\<lparr>queue := deque_appendleft t (queue ?s1)\<rparr>"
  have q: "queue ?s2 = [t]" and d: "dispatched ?s2 = dispatched s"
    using assms by (simp_all add: adjust_frame deque_appendleft_def)
  have p: "put c t s = check_queue c ?s2"
    by (simp add: put_def Let_def)
  from q have ne: "queue ?s2 \<noteq> []" by simp
  show "queue (put c t s) = []"
    unfolding p check_queue_pops(1) [OF ne] q by simp
  show "dispatched (put c t s) = dispatched s \<or> (\<exists>g. dispatched (put c t s) = dispatched s @ [(g, t)])"
    unfolding p check_queue_pops(2) [OF ne] q d by simp
qed

lemma green_exit_on_empty:
  assumes "queue s = []"
  shows "queue (snd (green_exit c g s)) = []"
    and "dispatched_tasks (snd (green_exit c g s)) = dispatched_tasks s"
proof -
  let ?s1 = "s\<lparr>greenlets := set_remove g (greenlets s)\<rparr>"
  have q1: "queue ?s1 = []" using assms by simp
  note p = put_on_empty [OF q1, of c None]
  from p(2) have dt: "dispatched_tasks (put c None ?s1) = dispatched_tasks s"
    by (auto simp add: dispatched_tasks_def some_tasks_append)
  show "queue (snd (green_exit c g s)) = []"
    using assms p(1)
    by (simp add: green_exit_def Let_def green_dies_def set_result_def set_outcome_def
        split: option.splits prod.splits fstate.splits)
  show "dispatched_tasks (snd (green_exit c g s)) = dispatched_tasks s"
    using dt
    by (simp add: green_exit_def Let_def green_dies_def set_result_def set_outcome_def dispatched_tasks_def
        split: option.splits prod.splits fstate.splits)
qed

lemma run_once_on_empty:
  assumes "queue s = []"
  shows "queue (snd (run_once c s)) = []"
    and "dispatched_tasks (snd (run_once c s)) = dispatched_tasks s"
proof -
  have q: "queue (s\<lparr>ready := r\<rparr>) = []" for r using assms by simp
  have d: "dispatched_tasks (s\<lparr>ready := r\<rparr>) = dispatched_tasks s" for r
    by (simp add: dispatched_tasks_def)
  show "queue (snd (run_once c s)) = []"
    using assms
    by (simp add: run_once_def Let_def check_queue_empty green_task_def green_call_frame
        green_exit_on_empty(1) [OF q] green_task_wakeup_frame
        split: list.splits callback.splits gstate.splits option.splits prod.splits)
  show "dispatched_tasks (snd (run_once c s)) = dispatched_tasks s"
    using assms
    by (simp add: run_once_def Let_def check_queue_empty green_task_def
        green_exit_on_empty(2) [OF q] d
        split: list.splits callback.splits gstate.splits option.splits prod.splits)
      (simp_all add: dispatched_tasks_def green_call_frame green_task_wakeup_frame)
qed


lemma submit_on_empty:
  assumes "queue s = []" and "\<not> shutdown_flag s"
  shows "queue (snd (submit c p s)) = []"
    and "\<not> shutdown_flag (snd (submit c p s))"
    and "next_fid (snd (submit c p s)) = Suc (next_fid s)"
    and "dispatched_tasks (snd (submit c p s)) = dispatched_tasks s \<or>
         dispatched_tasks (snd (submit c p s)) = dispatched_tasks s @ [(PoolFut (next_fid s), p)]"
proof -
  let ?s1 = "s\<lparr>next_fid := Suc (next_fid s),
                futures := (futures s)(PoolFut (next_fid s) := Pending [])\<rparr>"
  have q1: "queue ?s1 = []" using assms by simp
  have sub: "snd (submit c p s) = put c (Some (PoolFut (next_fid s), p)) ?s1"
    using assms by (simp add: submit_def Let_def)
  note p = put_on_empty [OF q1, of c "Some (PoolFut (next_fid s), p)"]
  show "queue (snd (submit c p s)) = []" unfolding sub by (rule p(1))
  show "\<not> shutdown_flag (snd (submit c p s))" unfolding sub using assms by (simp add: put_frame)
  show "next_fid (snd (submit c p s)) = Suc (next_fid s)" unfolding sub by (simp add: put_frame)
  show "dispatched_tasks (snd (submit c p s)) = dispatched_tasks s \<or>
        dispatched_tasks (snd (submit c p s)) = dispatched_tasks s @ [(PoolFut (next_fid s), p)]"
    unfolding sub using p(2) by (auto simp add: dispatched_tasks_def some_tasks_append)
qed

lemma no_shutdown_append: "no_shutdown (es @ fs) \<longleftrightarrow> no_shutdown es \<and> no_shutdown fs"
  by (simp add: no_shutdown_def)

lemma run_snoc: "run (es @ [e]) s = step e (run es s)"
  by (simp add: run_def)

lemma fifo_run:
  assumes "no_shutdown es"
  shows "queue (run es (GreenPool_init mw)) = [] \<and>
         \<not> shutdown_flag (run es (GreenPool_init mw)) \<and>
         next_fid (run es (GreenPool_init mw)) = length (submitted es 0) \<and>
         subseq (dispatched_tasks (run es (GreenPool_init mw))) (submitted es 0)"
  using assms
proof (induction es rule: rev_induct)
  case Nil
  show ?case by (simp add: run_def GreenPool_init_def dispatched_tasks_def)
next
  case (snoc e es)
  let ?s = "run es (GreenPool_init mw)"
  from snoc.prems have nes: "no_shutdown es" and ne: "\<not> is_Shutdown (snd e)"
    by (simp_all add: no_shutdown_def)
  from snoc.IH [OF nes] have q: "queue ?s = []" and fl: "\<not> shutdown_flag ?s"
    and nf: "next_fid ?s = length (submitted es 0)"
    and sub: "subseq (dispatched_tasks ?s) (submitted es 0)"
    by simp_all
  obtain c ev where e: "e = (c, ev)" by (cases e)
  show ?case
  proof (cases ev)
    case (Submit p)
    have subm: "submitted (es @ [e]) 0 = submitted es 0 @ [(PoolFut (next_fid ?s), p)]"
      using e Submit nf by (simp add: submitted_append)
    note sp = submit_on_empty [OF q fl, of c p]
    from sp(4) have "subseq (dispatched_tasks (snd (submit c p ?s)))
        (submitted es 0 @ [(PoolFut (next_fid ?s), p)])"
    proof
      assume "dispatched_tasks (snd (submit c p ?s)) = dispatched_tasks ?s"
      with sub show ?thesis by (simp add: list_emb_prefix)
    next
      assume "dispatched_tasks (snd (submit c p ?s)) = dispatched_tasks ?s @ [(PoolFut (next_fid ?s), p)]"
      with sub show ?thesis by (simp add: list_emb_append_mono)
    qed
    with sp(1-3) nf show ?thesis
      unfolding run_snoc subm using e Submit by simp
  next
    case (Shutdown w)
    with ne e show ?thesis by simp
  next
    case RunOnce
    have "submitted (es @ [e]) 0 = submitted es 0"
      using e RunOnce by (simp add: submitted_append)
    with q fl nf sub show ?thesis
      unfolding run_snoc using e RunOnce
      by (simp add: run_once_on_empty run_once_frame)
  next
    case (SetResult n out)
    have "submitted (es @ [e]) 0 = submitted es 0"
      using e SetResult by (simp add: submitted_append)
    with q fl nf sub show ?thesis
      unfolding run_snoc using e SetResult
      by (simp add: resolve_frame dispatched_tasks_def)
  qed
qed

lemma oldest_first_appendleft: "oldest_first (deque_appendleft t q) = oldest_first q @ [t]"
  by (simp add: oldest_first_def deque_appendleft_def)

lemma oldest_first_pop:
  "deque_pop q = (case oldest_first q of [] \<Rightarrow> None | x # r \<Rightarrow> Some (x, rev r))"
  by (cases q rule: rev_cases) (simp_all add: oldest_first_def deque_pop_def)

text \<open>After every event the queue is empty: whatever is appended is popped in the same call.\<close>

lemma step_on_empty:
  assumes "queue s = []"
  shows "queue (step e s) = []"
proof -
  obtain c ev where e: "e = (c, ev)" by (cases e)
  show ?thesis
  proof (cases ev)
    case (Submit p)
    show ?thesis
    proof (cases "shutdown_flag s")
      case True
      with e Submit assms show ?thesis by (simp add: submit_def)
    next
      case False
      with e Submit submit_on_empty(1) [OF assms False, of c p] show ?thesis by simp
    qed
  next
    case (Shutdown w)
    have "queue (s\<lparr>shutdown_flag := True\<rparr>) = []" using assms by simp
    from put_on_empty(1) [OF this, of c None] e Shutdown show ?thesis
      by (simp add: shutdown_def Let_def)
  next
    case RunOnce
    with e run_once_on_empty(1) [OF assms, of c] show ?thesis by simp
  next
    case (SetResult n out)
    with e assms show ?thesis by (simp add: resolve_frame)
  qed
qed

lemma queue_empty_run: "queue (run es (GreenPool_init mw)) = []"
proof (induction es rule: rev_induct)
  case Nil
  show ?case by (simp add: run_def GreenPool_init_def)
next
  case (snoc e es)
  then show ?case unfolding run_snoc by (rule step_on_empty)
qed

section \<open>A loop with nothing to run, and the scenarios evaluated\<close>

lemma run_once_idle: "ready s = [] \<Longrightarrow> snd (run_once c s) = s"
  by (simp add: run_once_def)

lemma run_loop_idle: "ready s = [] \<Longrightarrow> run (replicate n (c, RunOnce)) s = s"
  by (induction n) (simp_all add: run_def run_once_idle)

lemma put_None_nobody:
  assumes "queue s = []" and "available s = []"
  shows "put c None s = s"
  using assms by (simp add: put_def Let_def check_queue_def deque_pop_def deque_appendleft_def)

lemma drained_shutdown_init: "drained (snd (shutdown c True (GreenPool_init mw)))"
proof -
  have "put c None ((GreenPool_init mw)\<lparr>shutdown_flag := True\<rparr>) = (GreenPool_init mw)\<lparr>shutdown_flag := True\<rparr>"
    by (rule put_None_nobody) (simp_all add: GreenPool_init_def)
  then show ?thesis
    by (simp add: shutdown_def Let_def drained_def GreenPool_init_def)
qed

lemma drained_step:
  assumes "drained s"
  shows "drained (step e s)"
proof -
  obtain c ev where e: "e = (c, ev)" by (cases e)
  show ?thesis
  proof (cases ev)
    case (Submit p)
    with e assms show ?thesis by (simp add: submit_def drained_def)
  next
    case (Shutdown w)
    have "put c None (s\<lparr>shutdown_flag := True\<rparr>) = s\<lparr>shutdown_flag := True\<rparr>"
      by (rule put_None_nobody) (use assms in \<open>simp_all add: drained_def\<close>)
    moreover have "s\<lparr>shutdown_flag := True\<rparr> = s"
      using assms by (simp add: drained_def)
    ultimately have "put c None (s\<lparr>shutdown_flag := True\<rparr>) = s" by simp
    with e Shutdown assms show ?thesis
      by (auto simp add: shutdown_def Let_def drained_def)
  next
    case RunOnce
    with e assms show ?thesis by (simp add: run_once_idle drained_def)
  next
    case (SetResult n out)
    from assms have "futures s (UserFut n) = Pending [] \<or> (\<exists>out. futures s (UserFut n) = Done out)"
      by (simp add: drained_def)
    then show ?thesis
    proof (elim disjE exE)
      assume "futures s (UserFut n) = Pending []"
      with e SetResult assms show ?thesis
        by (cases out)
          (simp_all add: resolve_def set_result_def set_exception_def set_outcome_def drained_def)
    next
      fix out' assume "futures s (UserFut n) = Done out'"
      with e SetResult assms show ?thesis
        by (cases out) (simp_all add: resolve_def set_result_def set_exception_def set_outcome_def)
    qed
  qed
qed

lemma drained_run:
  assumes "drained s"
  shows "drained (run es s)"
  using assms unfolding run_def
  by (induction es arbitrary: s) (simp_all add: drained_step)

text \<open>
  A task submitted to a pool that is open, has its full number of greenlets and none of
  them idle: \<^verbatim>\<open>submit\<close> returns a new future and the pool keeps nothing else of the task.
\<close>

lemma submit_full_pool_drops_task:
  assumes "\<not> shutdown_flag s" and "queue s = []" and "available s = []"
    and "max_workers s \<le> int (length (greenlets s))"
  shows "submit c func s =
     (Inr (PoolFut (next_fid s)),
      s\<lparr>next_fid := Suc (next_fid s), futures := (futures s)(PoolFut (next_fid s) := Pending [])\<rparr>)"
  using assms
  by (simp add: submit_def put_def adjust_greenlet_count_def check_queue_def deque_pop_def
      deque_appendleft_def Let_def)

lemma five_sleepers_final:
  "futures (run five_sleepers (GreenPool_init (Some 2))) (PoolFut 0) = Done (Inr (VInt 0))"
  "futures (run five_sleepers (GreenPool_init (Some 2))) (PoolFut 1) = Done (Inr (VInt 1))"
  "futures (run five_sleepers (GreenPool_init (Some 2))) (PoolFut 2) = Pending []"
  "futures (run five_sleepers (GreenPool_init (Some 2))) (PoolFut 3) = Pending []"
  "futures (run five_sleepers (GreenPool_init (Some 2))) (PoolFut 4) = Pending []"
  "queue (run five_sleepers (GreenPool_init (Some 2))) = []"
  "ready (run five_sleepers (GreenPool_init (Some 2))) = []"
  "map fst (dispatched_tasks (run five_sleepers (GreenPool_init (Some 2)))) = [PoolFut 0, PoolFut 1]"
  "greenlets (run five_sleepers (GreenPool_init (Some 2))) = [0, 1]"
  "available (run five_sleepers (GreenPool_init (Some 2))) = [0, 1]"
  by code_simp+


lemma two_sleepers_final:
  "map fst (dispatched_tasks (run two_sleepers (GreenPool_init (Some 1)))) = [PoolFut 0]"
  "futures (run two_sleepers (GreenPool_init (Some 1))) (PoolFut 0) = Done (Inr (VInt 0))"
  "futures (run two_sleepers (GreenPool_init (Some 1))) (PoolFut 1) = Pending []"
  "greenlets (run two_sleepers (GreenPool_init (Some 1))) = [0]"
  "available (run two_sleepers (GreenPool_init (Some 1))) = [0]"
  "ready (run two_sleepers (GreenPool_init (Some 1))) = []"
  by code_simp+

lemma shutdown_of_idle_pool_resolves:
  "futures (run [(0, Submit (Return VNone)), (0, RunOnce), (0, RunOnce), (0, RunOnce),
                 (0, Shutdown True), (0, RunOnce)] (GreenPool_init None)) (PoolFut 1) = Done (Inr VNone)"
  "greenlets (run [(0, Submit (Return VNone)), (0, RunOnce), (0, RunOnce), (0, RunOnce),
                 (0, Shutdown True), (0, RunOnce)] (GreenPool_init None)) = []"
  by code_simp+

lemma echo_plain_final:
  "in_wait (contexts (run [(0, Submit echo_plain), (0, RunOnce), (0, RunOnce)] (GreenPool_init None)) 0)"
  "futures (run [(0, Submit echo_plain), (0, RunOnce), (0, RunOnce)] (GreenPool_init None)) (PoolFut 0) = Pending []"
  "ready (run [(0, Submit echo_plain), (0, RunOnce), (0, RunOnce)] (GreenPool_init None)) = []"
  "available (run [(0, Submit echo_plain), (0, RunOnce), (0, RunOnce)] (GreenPool_init None)) = []"
  "greenlets (run [(0, Submit echo_plain), (0, RunOnce), (0, RunOnce)] (GreenPool_init None)) = [0]"
  by code_simp+

text \<open>
  \<^verbatim>\<open>wait\<close> for every value: on the main line it returns the value, and the callable goes
  on with it; in a worker it switches to the main greenlet with the value. A greenlet
  suspended in \<^verbatim>\<open>wait\<close> whose coroutine is woken by a future done with a result goes on with
  that result as the value of the call.
\<close>

lemma wait_on_main_line: "wait MainGreenlet v = Returned v \<and> run_main (Wait v k) = run_main (k v)"
  by (simp add: wait_def)

lemma wait_in_worker: "wait (GreenletWorker g) v = SwitchedTo MainGreenlet v"
  by (simp add: wait_def)

lemma wakeup_resumes_with_result:
  assumes "futures s f = Done (Inr y)" and "contexts s g = InTask future k"
  shows "green_task_wakeup g f s = green_call (k y) g future s"
  using assms by (simp add: green_task_wakeup_def)

lemma wait_not_async_suspends:
  assumes "\<not> is_async v"
  shows "green_call (Wait v k) g future s = (None, s\<lparr>contexts := (contexts s)(g := InTask future k)\<rparr>)"
  using assms by (cases v) (simp_all add: wait_def)

text \<open>
  A callable that raises \<^verbatim>\<open>StopIteration\<close>: \<^verbatim>\<open>set_exception\<close> refuses it inside the \<^verbatim>\<open>except\<close>
  clause, the \<^verbatim>\<open>TypeError\<close> leaves the greenlet, and the future of the task stays pending.
\<close>

lemma stop_iteration_not_accepted:
  assumes "futures s future = Pending ws"
  shows "green_call (Raise StopIteration) g future s =
     (Some (TypeError ''StopIteration interacts badly with generators and cannot be raised into a Future''),
      s\<lparr>contexts := (contexts s)(g := Dead)\<rparr>)"
  using assms
  by (simp add: green_resolve_def resolve_def set_exception_def green_dies_def)

section \<open>Requests below and at the threshold, and the hook\<close>

lemma handle_request_counts: "nr (snd (handle_request cfg handler req w)) = nr w + 1"
  by (simp add: handle_request_def check_num_requests_def stop_def close_def ioloop_stop_def
      log_info_def Let_def split: option.splits)

lemma handle_request_below:
  assumes "nr w + 1 < max_requests w" and "pre_request cfg req = None"
  shows "handle_request cfg handler req w =
     (handler req,
      w\<lparr>nr := nr w + 1, trace := trace w @ [EvPreRequest req, EvHandle req, EvPostRequest req]\<rparr>)"
  using assms
  by (simp add: handle_request_def check_num_requests_def try_finally_def swallowed_def Let_def
      split: option.splits)

lemma serve_append: "serve cfg handler (xs @ ys) w = serve cfg handler ys (serve cfg handler xs w)"
  by (simp add: serve_def)

lemma serve_stopped: "ioloop w \<noteq> Some True \<Longrightarrow> serve cfg handler reqs w = w"
  unfolding serve_def by (induction reqs) simp_all

lemma serve_below:
  assumes "ioloop w = Some True" and "nr w + int (length reqs) < max_requests w"
    and "\<forall>r \<in> set reqs. pre_request cfg r = None"
  shows "serve cfg handler reqs w =
     w\<lparr>nr := nr w + int (length reqs),
       trace := trace w @ concat (map (\<lambda>r. [EvPreRequest r, EvHandle r, EvPostRequest r]) reqs)\<rparr>"
  using assms(2,3)
proof (induction reqs rule: rev_induct)
  case Nil
  show ?case by (simp add: serve_def)
next
  case (snoc req reqs)
  let ?before = "serve cfg handler reqs w"
  from snoc.prems have "nr w + int (length reqs) < max_requests w"
    and "\<forall>r \<in> set reqs. pre_request cfg r = None" and pre: "pre_request cfg req = None"
    by simp_all
  from snoc.IH [OF this(1,2)] have b: "?before =
     w\<lparr>nr := nr w + int (length reqs),
       trace := trace w @ concat (map (\<lambda>r. [EvPreRequest r, EvHandle r, EvPostRequest r]) reqs)\<rparr>" .
  from b assms(1) have run: "ioloop ?before = Some True" by simp
  from b snoc.prems(1) have below: "nr ?before + 1 < max_requests ?before" by simp
  have "serve cfg handler (reqs @ [req]) w = snd (handle_request cfg handler req ?before)"
    using run by (simp add: serve_def)
  also have "\<dots> = ?before\<lparr>nr := nr ?before + 1,
      trace := trace ?before @ [EvPreRequest req, EvHandle req, EvPostRequest req]\<rparr>"
    by (simp add: handle_request_below [OF below pre])
  also have "\<dots> = w\<lparr>nr := nr w + int (length (reqs @ [req])),
       trace := trace w @ concat (map (\<lambda>r. [EvPreRequest r, EvHandle r, EvPostRequest r]) (reqs @ [req]))\<rparr>"
    unfolding b by simp
  finally show ?case .
qed

lemma handle_request_at_threshold:
  assumes "ioloop w = Some True" and "pre_request cfg req = None"
    and "0 < max_requests w" and "max_requests w \<le> nr w + 1"
  shows "handle_request cfg handler req w =
     (handler req,
      w\<lparr>nr := nr w + 1, ioloop := Some False,
        trace := trace w @ [EvLog ''Auto-restarting worker after current request.'', EvClose,
          EvLoopStop, EvPreRequest req, EvHandle req, EvPostRequest req]\<rparr>)"
  using assms
  by (simp add: handle_request_def check_num_requests_def stop_def close_def ioloop_stop_def
      log_info_def try_finally_def swallowed_def Let_def split: option.splits)

lemma handle_request_after_stop:
  assumes "ioloop w = Some False" and "pre_request cfg req = None"
    and "0 < max_requests w" and "max_requests w \<le> nr w + 1"
  shows "handle_request cfg handler req w =
     (handler req,
      w\<lparr>nr := nr w + 1,
        trace := trace w @ [EvLog ''Auto-restarting worker after current request.'',
          EvPreRequest req, EvHandle req, EvPostRequest req]\<rparr>)"
  using assms
  by (simp add: handle_request_def check_num_requests_def stop_def
      log_info_def try_finally_def swallowed_def Let_def split: option.splits)

lemma swallowed_None: "swallowed hook = None"
  by (simp add: swallowed_def split: option.splits)

lemma async_respond_post: "async_respond (env\<lparr>e_post_request := x\<rparr>) = async_respond env"
  by (simp add: async_respond_def cong: sum.case_cong option.case_cong bool.case_cong if_cong)

lemma async_count_post: "async_count (env\<lparr>e_post_request := x\<rparr>) w = async_count env w"
  by (simp add: async_count_def cong: option.case_cong if_cong)

lemma async_try_post: "async_try (env\<lparr>e_post_request := x\<rparr>) req w = async_try env req w"
  by (simp add: async_try_def async_respond_post async_count_post
      cong: option.case_cong prod.case_cong)

lemma async_except_post: "async_except (env\<lparr>e_post_request := x\<rparr>) e w = async_except env e w"
  by (simp add: async_except_def cong: option.case_cong if_cong)

lemma async_handle_request_post:
  "async_handle_request (env\<lparr>e_post_request := x\<rparr>) req w = async_handle_request env req w"
  by (simp add: async_handle_request_def async_try_post async_except_post swallowed_None
      cong: sum.case_cong prod.case_cong)

lemma async_handle_request_trace:
  "last (trace (snd (async_handle_request env req w))) = EvPostRequest req"
  by (simp add: async_handle_request_def Let_def split: prod.splits)

lemma handle_request_post:
  assumes "pre_request cfg req = None"
  shows "handle_request (cfg\<lparr>post_request := hook\<rparr>) handler req w =
           (handler req,
            (check_num_requests (w\<lparr>nr := nr w + 1\<rparr>))
              \<lparr>trace := trace (check_num_requests (w\<lparr>nr := nr w + 1\<rparr>)) @
                 [EvPreRequest req, EvHandle req, EvPostRequest req]\<rparr>)"
  using assms
  by (simp add: handle_request_def try_finally_def swallowed_None Let_def)

lemma handle_request_any_hook:
  "handle_request (cfg\<lparr>post_request := hook\<rparr>) handler req w =
     handle_request (cfg\<lparr>post_request := hook'\<rparr>) handler req w"
  by (simp add: handle_request_def try_finally_def swallowed_None Let_def cong: option.case_cong)

section \<open>The claims\<close>

text \<open>
  C1. The scenario: a pool with \<^verbatim>\<open>max_workers=2\<close> and five tasks, each suspending in
  \<^verbatim>\<open>wait\<close> and then returning its index. Only the first two futures are resolved. The
  other three tasks were taken from the queue by \<^verbatim>\<open>_check_queue\<close> while no greenlet was
  idle and are held nowhere: their futures stay pending however long the loop runs, with
  the queue empty, both greenlets idle and nothing left to run.
\<close>

theorem five_sleepers_three_discarded:
  "futures (run (five_sleepers @ replicate n (c, RunOnce)) (GreenPool_init (Some 2))) (PoolFut 0) = Done (Inr (VInt 0)) \<and>
   futures (run (five_sleepers @ replicate n (c, RunOnce)) (GreenPool_init (Some 2))) (PoolFut 1) = Done (Inr (VInt 1)) \<and>
   futures (run (five_sleepers @ replicate n (c, RunOnce)) (GreenPool_init (Some 2))) (PoolFut 2) = Pending [] \<and>
   futures (run (five_sleepers @ replicate n (c, RunOnce)) (GreenPool_init (Some 2))) (PoolFut 3) = Pending [] \<and>
   futures (run (five_sleepers @ replicate n (c, RunOnce)) (GreenPool_init (Some 2))) (PoolFut 4) = Pending [] \<and>
   queue (run (five_sleepers @ replicate n (c, RunOnce)) (GreenPool_init (Some 2))) = [] \<and>
   ready (run (five_sleepers @ replicate n (c, RunOnce)) (GreenPool_init (Some 2))) = [] \<and>
   available (run (five_sleepers @ replicate n (c, RunOnce)) (GreenPool_init (Some 2))) = [0, 1] \<and>
   map fst (dispatched_tasks (run (five_sleepers @ replicate n (c, RunOnce)) (GreenPool_init (Some 2))))
     = [PoolFut 0, PoolFut 1]"
proof -
  have "run (five_sleepers @ replicate n (c, RunOnce)) (GreenPool_init (Some 2)) =
        run five_sleepers (GreenPool_init (Some 2))"
    unfolding run_append by (rule run_loop_idle) (rule five_sleepers_final)
  then show ?thesis by (simp only: five_sleepers_final simp_thms)
qed

text \<open>
  C2. After every sequence of events the queue of the pool is empty, so that no task ever
  waits in it for a greenlet. In a pool with one greenlet and two tasks submitted in a
  row, the second task is pending when the greenlet becomes idle again, and it is never
  dispatched: however long the loop runs, the only task dispatched is the first, the
  future of the second stays pending, and the greenlet stays idle with nothing left to
  run.
\<close>

theorem pending_task_never_dispatched:
  "queue (run es (GreenPool_init mw)) = [] \<and>
   map fst (dispatched_tasks (run (two_sleepers @ replicate n (c, RunOnce)) (GreenPool_init (Some 1))))
     = [PoolFut 0] \<and>
   futures (run (two_sleepers @ replicate n (c, RunOnce)) (GreenPool_init (Some 1))) (PoolFut 0)
     = Done (Inr (VInt 0)) \<and>
   futures (run (two_sleepers @ replicate n (c, RunOnce)) (GreenPool_init (Some 1))) (PoolFut 1)
     = Pending [] \<and>
   greenlets (run (two_sleepers @ replicate n (c, RunOnce)) (GreenPool_init (Some 1))) = [0] \<and>
   available (run (two_sleepers @ replicate n (c, RunOnce)) (GreenPool_init (Some 1))) = [0] \<and>
   ready (run (two_sleepers @ replicate n (c, RunOnce)) (GreenPool_init (Some 1))) = []"
proof -
  have "run (two_sleepers @ replicate n (c, RunOnce)) (GreenPool_init (Some 1)) =
        run two_sleepers (GreenPool_init (Some 1))"
    unfolding run_append by (rule run_loop_idle) (rule two_sleepers_final)
  then show ?thesis by (simp only: two_sleepers_final queue_empty_run simp_thms)
qed

text \<open>
  C3. Every call of \<^verbatim>\<open>submit\<close> made after \<^verbatim>\<open>shutdown\<close> has been called, whatever happened
  in between, raises the \<^verbatim>\<open>RuntimeError\<close> of a closed pool and leaves the whole state of
  the pool as it was: nothing is enqueued and no greenlet is created.
\<close>

theorem submit_after_shutdown_fails:
  "submit c func (run es (snd (shutdown c' wt s))) =
     (Inl (RuntimeError ''cannot schedule new futures after shutdown''),
      run es (snd (shutdown c' wt s)))"
  by (simp add: submit_def run_keeps_flag shutdown_sets_flag)

text \<open>
  C4. \<^verbatim>\<open>shutdown(wait=True)\<close> on a pool that never created a greenlet returns the first
  future of the pool, and after any further events the set of live greenlets is still
  empty and that future is still pending.
\<close>

theorem shutdown_of_unused_pool_never_resolves:
  "fst (shutdown c True (GreenPool_init mw)) = Some (PoolFut 0) \<and>
   greenlets (run es (snd (shutdown c True (GreenPool_init mw)))) = [] \<and>
   futures (run es (snd (shutdown c True (GreenPool_init mw)))) (PoolFut 0) = Pending []"
proof -
  have "drained (run es (snd (shutdown c True (GreenPool_init mw))))"
    by (rule drained_run) (rule drained_shutdown_init)
  moreover have "fst (shutdown c True (GreenPool_init mw)) = Some (PoolFut 0)"
  proof -
    have "put c None ((GreenPool_init mw)\<lparr>shutdown_flag := True\<rparr>) = (GreenPool_init mw)\<lparr>shutdown_flag := True\<rparr>"
      by (rule put_None_nobody) (simp_all add: GreenPool_init_def)
    then show ?thesis by (simp add: shutdown_def Let_def GreenPool_init_def)
  qed
  ultimately show ?thesis by (simp add: drained_def)
qed

text \<open>
  C5. For a task whose future is pending when its callable ends, whether or not the
  callable has waited before: if the callable returns, the future is resolved with the
  returned value; if it raises an instance of \<^verbatim>\<open>Exception\<close> other than a \<^verbatim>\<open>StopIteration\<close>, the
  future is resolved with that exception; in both cases nothing is raised in the invoker,
  and the two states of the future exclude each other. An exception that is not an
  instance of \<^verbatim>\<open>Exception\<close> is not caught: it is raised in the invoker and the future stays
  pending. The first switch into an idle greenlet and every resumption of a greenlet
  suspended in \<^verbatim>\<open>wait\<close> run the callable in this way.
\<close>

theorem task_outcome_resolves_future:
  assumes "futures s future = Pending ws" and "is_Exception e" and "e \<noteq> StopIteration"
    and "\<not> is_Exception b"
  shows "fst (green_call (Return v) g future s) = None \<and>
         futures (snd (green_call (Return v) g future s)) future = Done (Inr v) \<and>
         fst (green_call (Raise e) g future s) = None \<and>
         futures (snd (green_call (Raise e) g future s)) future = Done (Inl e) \<and>
         Done (Inr v) \<noteq> Done (Inl e) \<and>
         fst (green_call (Raise b) g future s) = Some b \<and>
         futures (snd (green_call (Raise b) g future s)) future = Pending ws \<and>
         green_task c g (Some (future, func)) (s\<lparr>contexts := (contexts s)(g := Idle)\<rparr>) =
           green_call func g future (s\<lparr>contexts := (contexts s)(g := Idle)\<rparr>) \<and>
         green_task_wakeup g f
             (s\<lparr>contexts := (contexts s)(g := InTask future k), futures := (futures s)(f := Done (Inr y))\<rparr>) =
           green_call (k y) g future
             (s\<lparr>contexts := (contexts s)(g := InTask future k), futures := (futures s)(f := Done (Inr y))\<rparr>)"
  using assms
  by (simp add: green_resolve_def resolve_def set_result_def set_exception_def set_outcome_def
      green_idle_def call_soon_def green_dies_def green_task_def green_task_wakeup_def)

theorem task_outcome_resolves_future_witness:
  "futures (GreenPool_init None) (PoolFut 0) = Pending [] \<and>
   is_Exception (OtherException ''ValueError'') \<and> OtherException ''ValueError'' \<noteq> StopIteration \<and>
   \<not> is_Exception (BaseOnly ''SystemExit'') \<and>
   futures (snd (green_call (Return (VInt 7)) 0 (PoolFut 0) (GreenPool_init None))) (PoolFut 0)
     = Done (Inr (VInt 7)) \<and>
   futures (snd (green_call (Raise (OtherException ''ValueError'')) 0 (PoolFut 0) (GreenPool_init None)))
     (PoolFut 0) = Done (Inl (OtherException ''ValueError'')) \<and>
   fst (green_call (Raise (BaseOnly ''SystemExit'')) 0 (PoolFut 0) (GreenPool_init None))
     = Some (BaseOnly ''SystemExit'')"
proof -
  have h1: "futures (GreenPool_init None) (PoolFut 0) = Pending []" by (simp add: GreenPool_init_def)
  have h2: "is_Exception (OtherException ''ValueError'')" by simp
  have h3: "OtherException ''ValueError'' \<noteq> StopIteration" by simp
  have h4: "\<not> is_Exception (BaseOnly ''SystemExit'')" by simp
  from task_outcome_resolves_future [OF h1 h2 h3 h4, of "VInt 7" 0] h1 h2 h3 h4
  show ?thesis by blast
qed

text \<open>
  A callable that raises \<^verbatim>\<open>SystemExit\<close>: the callback of the loop that runs it ends with
  that exception, and the future of the task is pending. A callable that raises
  \<^verbatim>\<open>StopIteration\<close>: the callback ends with the \<^verbatim>\<open>TypeError\<close> of \<^verbatim>\<open>set_exception\<close>, and the future
  of the task is pending.
\<close>

theorem system_exit_leaves_greenlet:
  "fst (run_once 0 (run [(0, Submit (Raise (BaseOnly ''SystemExit''))), (0, RunOnce)] (GreenPool_init None)))
     = Some (BaseOnly ''SystemExit'') \<and>
   futures (snd (run_once 0 (run [(0, Submit (Raise (BaseOnly ''SystemExit''))), (0, RunOnce)]
     (GreenPool_init None)))) (PoolFut 0) = Pending [] \<and>
   fst (run_once 0 (run [(0, Submit (Raise StopIteration)), (0, RunOnce)] (GreenPool_init None)))
     = Some (TypeError ''StopIteration interacts badly with generators and cannot be raised into a Future'') \<and>
   futures (snd (run_once 0 (run [(0, Submit (Raise StopIteration)), (0, RunOnce)]
     (GreenPool_init None)))) (PoolFut 0) = Pending []"
  by code_simp

text \<open>
  C6. After any sequence of events on a pool constructed with argument \<open>mw\<close> (calls of
  \<^verbatim>\<open>submit\<close> and \<^verbatim>\<open>shutdown\<close>, callbacks run by the loop, futures resolved from outside,
  with any choice at \<^verbatim>\<open>set.pop()\<close>), the live greenlets are at most the bound
  \<open>N = init_max_workers mw\<close>, counted as a natural number (a negative bound, which the
  constructor does not reject, admits none), so at most \<open>N\<close> whenever \<open>N\<close> is not
  negative; the bound does not change and is at most 1000; and one more event either
  leaves the set of live greenlets within what it was, or finds fewer than \<open>N\<close> of them
  and adds exactly one new greenlet.
\<close>

theorem live_greenlets_bounded:
  "length (greenlets (run es (GreenPool_init mw))) \<le> nat (init_max_workers mw) \<and>
   distinct (greenlets (run es (GreenPool_init mw))) \<and>
   max_workers (run es (GreenPool_init mw)) = init_max_workers mw \<and>
   init_max_workers mw \<le> MAX_WORKERS \<and> MAX_WORKERS = 1000 \<and>
   (0 \<le> init_max_workers mw \<longrightarrow>
      int (length (greenlets (run es (GreenPool_init mw)))) \<le> init_max_workers mw) \<and>
   (set (greenlets (step e (run es (GreenPool_init mw)))) \<subseteq> set (greenlets (run es (GreenPool_init mw))) \<or>
    (int (length (greenlets (run es (GreenPool_init mw)))) < init_max_workers mw \<and>
     greenlets (step e (run es (GreenPool_init mw))) =
       greenlets (run es (GreenPool_init mw)) @ [next_gid (run es (GreenPool_init mw))]))"
proof -
  let ?s = "run es (GreenPool_init mw)"
  have inv: "live_inv ?s"
    by (rule live_inv_run) (rule live_inv_init)
  have mw: "max_workers ?s = init_max_workers mw"
    by (simp add: run_max_workers GreenPool_init_def)
  from inv mw have len: "length (greenlets ?s) \<le> nat (init_max_workers mw)"
    and dist: "distinct (greenlets ?s)"
    by (simp_all add: live_inv_def)
  from len have "0 \<le> init_max_workers mw \<longrightarrow>
      int (length (greenlets ?s)) \<le> init_max_workers mw"
    by linarith
  moreover have "init_max_workers mw \<le> MAX_WORKERS" and "MAX_WORKERS = 1000"
    by (simp_all add: init_max_workers_def MAX_WORKERS_def)
  moreover note step_greenlets [OF inv, of e, unfolded mw] mw len dist
  ultimately show ?thesis by blast
qed

theorem live_greenlets_bounded_witness:
  "(0::int) \<le> init_max_workers (Some 2) \<and>
   int (length (greenlets (run [(0, Submit (Return VNone)), (0, Submit (Return VNone)),
          (0, Submit (Return VNone))] (GreenPool_init (Some 2))))) \<le> init_max_workers (Some 2) \<and>
   init_max_workers (Some 2) = 2"
proof -
  have h: "(0::int) \<le> init_max_workers (Some 2)" and v: "init_max_workers (Some 2) = 2"
    by (simp_all add: init_max_workers_def py_or_def DEFAULT_WORKERS_def MAX_WORKERS_def)
  from live_greenlets_bounded [of "[(0, Submit (Return VNone)), (0, Submit (Return VNone)),
          (0, Submit (Return VNone))]" "Some 2"] h v
  show ?thesis by blast
qed

text \<open>
  C7. On the main line \<^verbatim>\<open>wait(5)\<close> returns 5. In a greenlet of the pool \<^verbatim>\<open>wait(5)\<close>
  switches to the parent with 5; the coroutine \<^verbatim>\<open>_green_task\<close> takes a value that is not
  a future for the end of the task and finishes. However long the loop runs, the greenlet
  stays suspended inside \<^verbatim>\<open>wait\<close>, the future of the task stays pending, and the
  greenlet is not available again.
\<close>

theorem wait_plain_value_never_returns:
  "run_main echo_plain = Inr (VInt 5) \<and>
   wait (GreenletWorker 0) (VInt 5) = SwitchedTo MainGreenlet (VInt 5) \<and>
   in_wait (contexts (run ([(0, Submit echo_plain), (0, RunOnce), (0, RunOnce)] @ replicate n (c, RunOnce))
     (GreenPool_init None)) 0) \<and>
   futures (run ([(0, Submit echo_plain), (0, RunOnce), (0, RunOnce)] @ replicate n (c, RunOnce))
     (GreenPool_init None)) (PoolFut 0) = Pending [] \<and>
   available (run ([(0, Submit echo_plain), (0, RunOnce), (0, RunOnce)] @ replicate n (c, RunOnce))
     (GreenPool_init None)) = [] \<and>
   ready (run ([(0, Submit echo_plain), (0, RunOnce), (0, RunOnce)] @ replicate n (c, RunOnce))
     (GreenPool_init None)) = []"
proof -
  have "run ([(0, Submit echo_plain), (0, RunOnce), (0, RunOnce)] @ replicate n (c, RunOnce)) (GreenPool_init None)
      = run [(0, Submit echo_plain), (0, RunOnce), (0, RunOnce)] (GreenPool_init None)"
    unfolding run_append by (rule run_loop_idle) (rule echo_plain_final)
  moreover have "run_main echo_plain = Inr (VInt 5)"
    by (simp add: echo_plain_def wait_def)
  moreover have "wait (GreenletWorker 0) (VInt 5) = SwitchedTo MainGreenlet (VInt 5)"
    by (simp add: wait_def)
  ultimately show ?thesis by (simp only: echo_plain_final simp_thms)
qed

text \<open>
  C8. A worker configured with \<^verbatim>\<open>max_requests = K\<close>, \<open>K\<close> at least 1 (when unset or 0 the
  threshold is \<^verbatim>\<open>sys.maxsize\<close>, which stands for no bound), that is handed its requests by
  its running loop and whose \<^verbatim>\<open>pre_request\<close> hook returns. Every call of \<^verbatim>\<open>handle_request\<close> first increments the counter
  and then checks the threshold. The first \<open>K - 1\<close> requests are handled and stop nothing.
  On the \<open>K\<close>-th request the check logs, closes the worker and stops the loop before the
  hooks and the handler run, and that request is then handled to its end in the same
  call, with the outcome of its handler. No later request is started.
\<close>

theorem auto_restart_at_kth_request:
  assumes "0 < K" and "int (length first) = K - 1"
    and "\<forall>r \<in> set (first @ [req]). pre_request cfg r = None"
  shows "serve cfg handler (first @ req # rest) ((Worker_init (Some K) d)\<lparr>ioloop := Some True\<rparr>) =
           (Worker_init (Some K) d)
             \<lparr>nr := K, ioloop := Some False,
              trace := concat (map (\<lambda>r. [EvPreRequest r, EvHandle r, EvPostRequest r]) first) @
                [EvLog ''Auto-restarting worker after current request.'', EvClose, EvLoopStop,
                 EvPreRequest req, EvHandle req, EvPostRequest req]\<rparr> \<and>
         fst (handle_request cfg handler req
                (serve cfg handler first ((Worker_init (Some K) d)\<lparr>ioloop := Some True\<rparr>))) = handler req \<and>
         nr (snd (handle_request cfg' handler' req' w)) = nr w + 1 \<and>
         max_requests (Worker_init None d) = sys_maxsize \<and>
         max_requests (Worker_init (Some 0) d) = sys_maxsize"
proof -
  let ?init = "(Worker_init (Some K) d)\<lparr>ioloop := Some True\<rparr>"
  let ?before = "serve cfg handler first ?init"
  from assms(1) have i: "nr ?init = 0" "max_requests ?init = K" "ioloop ?init = Some True"
      "trace ?init = []"
    by (simp_all add: Worker_init_def py_or_def)
  from assms(2) i have below: "nr ?init + int (length first) < max_requests ?init" by simp
  from assms(3) have pf: "\<forall>r \<in> set first. pre_request cfg r = None"
    and pr: "pre_request cfg req = None" by simp_all
  have b: "?before = ?init\<lparr>nr := K - 1,
      trace := concat (map (\<lambda>r. [EvPreRequest r, EvHandle r, EvPostRequest r]) first)\<rparr>"
    using serve_below [OF i(3) below pf, of handler] i assms(2) by simp
  from b i have run: "ioloop ?before = Some True" by simp
  from b i assms(1) have thr: "0 < max_requests ?before" "max_requests ?before \<le> nr ?before + 1"
    by simp_all
  note kth = handle_request_at_threshold [OF run pr thr, of handler]
  have "serve cfg handler (first @ req # rest) ?init =
      serve cfg handler rest (serve cfg handler [req] ?before)"
    using serve_append [of cfg handler first "req # rest" ?init]
      serve_append [of cfg handler "[req]" rest ?before] by simp
  also have "serve cfg handler [req] ?before = snd (handle_request cfg handler req ?before)"
    using run by (simp add: serve_def)
  also have "serve cfg handler rest (snd (handle_request cfg handler req ?before)) =
      snd (handle_request cfg handler req ?before)"
    by (rule serve_stopped) (simp add: kth)
  also have "snd (handle_request cfg handler req ?before) =
      ?before\<lparr>nr := nr ?before + 1, ioloop := Some False,
        trace := trace ?before @ [EvLog ''Auto-restarting worker after current request.'', EvClose,
          EvLoopStop, EvPreRequest req, EvHandle req, EvPostRequest req]\<rparr>"
    by (simp add: kth)
  also have "\<dots> =
      (Worker_init (Some K) d)
        \<lparr>nr := K, ioloop := Some False,
         trace := concat (map (\<lambda>r. [EvPreRequest r, EvHandle r, EvPostRequest r]) first) @
           [EvLog ''Auto-restarting worker after current request.'', EvClose, EvLoopStop,
            EvPreRequest req, EvHandle req, EvPostRequest req]\<rparr>"
    unfolding b by simp
  finally have whole: "serve cfg handler (first @ req # rest) ?init =
      (Worker_init (Some K) d)
        \<lparr>nr := K, ioloop := Some False,
         trace := concat (map (\<lambda>r. [EvPreRequest r, EvHandle r, EvPostRequest r]) first) @
           [EvLog ''Auto-restarting worker after current request.'', EvClose, EvLoopStop,
            EvPreRequest req, EvHandle req, EvPostRequest req]\<rparr>" .
  have out: "fst (handle_request cfg handler req ?before) = handler req"
    by (simp add: kth)
  have unset: "max_requests (Worker_init None d) = sys_maxsize"
    "max_requests (Worker_init (Some 0) d) = sys_maxsize"
    by (simp_all add: Worker_init_def py_or_def)
  from whole out unset handle_request_counts [of cfg' handler' req' w] show ?thesis
    by blast
qed

theorem auto_restart_at_kth_request_witness:
  "(0::int) < 2 \<and> int (length [1::nat]) = 2 - 1 \<and>
   pre_request quiet_config 1 = None \<and> pre_request quiet_config 2 = None \<and>
   serve quiet_config plain_handler ([1] @ 2 # [3, 4]) ((Worker_init (Some 2) False)\<lparr>ioloop := Some True\<rparr>) =
     (Worker_init (Some 2) False)
       \<lparr>nr := 2, ioloop := Some False,
        trace := [EvPreRequest 1, EvHandle 1, EvPostRequest 1,
          EvLog ''Auto-restarting worker after current request.'', EvClose, EvLoopStop,
          EvPreRequest 2, EvHandle 2, EvPostRequest 2]\<rparr>"
proof -
  have h1: "(0::int) < 2" by simp
  have h2: "int (length [1::nat]) = 2 - 1" by simp
  have h3: "\<forall>r \<in> set ([1] @ [2]). pre_request quiet_config r = None"
    by (simp add: quiet_config_def)
  from auto_restart_at_kth_request [OF h1 h2 h3, of plain_handler "[3, 4]" False, THEN conjunct1]
  have "serve quiet_config plain_handler ([1] @ 2 # [3, 4]) ((Worker_init (Some 2) False)\<lparr>ioloop := Some True\<rparr>) =
     (Worker_init (Some 2) False)
       \<lparr>nr := 2, ioloop := Some False,
        trace := [EvPreRequest 1, EvHandle 1, EvPostRequest 1,
          EvLog ''Auto-restarting worker after current request.'', EvClose, EvLoopStop,
          EvPreRequest 2, EvHandle 2, EvPostRequest 2]\<rparr>"
    by simp
  moreover have "pre_request quiet_config 1 = None" and "pre_request quiet_config 2 = None"
    by (simp_all add: quiet_config_def)
  ultimately show ?thesis using h1 h2 by blast
qed

text \<open>
  With \<^verbatim>\<open>max_requests = 1\<close> the worker is closed and its loop stopped before the first
  request reaches the hook and the handler; and when the \<^verbatim>\<open>pre_request\<close> hook raises, the
  worker is closed and stopped although that request is never handled.
\<close>

theorem stop_precedes_first_request:
  "trace (snd (handle_request quiet_config plain_handler 1 ((Worker_init (Some 1) False)\<lparr>ioloop := Some True\<rparr>))) =
     [EvLog ''Auto-restarting worker after current request.'', EvClose, EvLoopStop,
      EvPreRequest 1, EvHandle 1, EvPostRequest 1] \<and>
   handle_request raising_config plain_handler 1 ((Worker_init (Some 1) False)\<lparr>ioloop := Some True\<rparr>) =
     (Some (OtherException ''pre_request''),
      (Worker_init (Some 1) False)
        \<lparr>nr := 1, ioloop := Some False,
         trace := [EvLog ''Auto-restarting worker after current request.'', EvClose, EvLoopStop,
           EvPreRequest 1]\<rparr>)"
  by (simp add: handle_request_def check_num_requests_def stop_def close_def ioloop_stop_def
      log_info_def try_finally_def swallowed_def Let_def Worker_init_def py_or_def quiet_config_def
      raising_config_def)

text \<open>
  C9. A request whose \<^verbatim>\<open>pre_request\<close> hook raises. \<^verbatim>\<open>Worker.handle_request\<close> calls that hook
  before its \<^verbatim>\<open>try\<close> block: the exception reaches the caller, and neither the handler nor
  the \<^verbatim>\<open>post_request\<close> hook is called. \<^verbatim>\<open>AsyncWorker.handle_request\<close> calls it inside the
  \<^verbatim>\<open>try\<close> block: the exception reaches the caller after the \<^verbatim>\<open>post_request\<close> hook has been
  called.
\<close>

theorem pre_request_failure_skips_post_request:
  "handle_request raising_config plain_handler 1 (Worker_init None False) =
     (Some (OtherException ''pre_request''),
      (Worker_init None False)\<lparr>nr := 1, trace := [EvPreRequest 1]\<rparr>) \<and>
   async_handle_request raising_env 1 (Worker_init None False) =
     (Inl (OtherException ''pre_request''),
      (Worker_init None False)\<lparr>trace := [EvPreRequest 1, EvPostRequest 1]\<rparr>)"
  by (simp add: handle_request_def check_num_requests_def Worker_init_def py_or_def sys_maxsize_def
      raising_config_def raising_env_def async_handle_request_def async_try_def async_except_def
      try_finally_def swallowed_def Let_def)



end
